theory Spec2Isabelle
  imports Complex_Main "HOL-Library.Multiset" "HOL-Library.Sublist"
begin

section \<open>The random generator\<close>

text \<open>
  The program draws every random number from the global generator of Python's
  \<^verbatim>\<open>random\<close> module. The generator is library code, so it is modelled as an
  explicit state that every stochastic function takes and returns: an arbitrary
  infinite tape of raw draws and the position of the next one. A theorem that holds
  for every tape holds for every sequence of draws the real generator can produce.
\<close>

datatype error = ValueError | IndexError

record rng =
  tape :: "nat \<Rightarrow> nat"
  pos :: nat

text \<open>The generator's primitive: a number below \<open>n\<close>, consuming one raw draw.\<close>

definition randbelow :: "nat \<Rightarrow> rng \<Rightarrow> nat \<times> rng" where
  "randbelow n g = (tape g (pos g) mod n, g\<lparr>pos := Suc (pos g)\<rparr>)"

text \<open>
  \<^verbatim>\<open>random.randint(a, b)\<close>: an integer of the closed range, raising
  \<^verbatim>\<open>ValueError\<close> when the range is empty.
\<close>

definition randint :: "int \<Rightarrow> int \<Rightarrow> rng \<Rightarrow> error + (int \<times> rng)" where
  "randint a b g =
     (if b < a then Inl ValueError
      else (case randbelow (nat (b - a + 1)) g of (r, g') \<Rightarrow> Inr (a + int r, g')))"

text \<open>
  \<^verbatim>\<open>random.shuffle(x)\<close>, the library's Fisher-Yates loop
  \<^verbatim>\<open>for i in reversed(range(1, len(x))): j = randbelow(i + 1); x[i], x[j] = x[j], x[i]\<close>.
  \<open>shuffle_from i\<close> runs the iterations \<open>i, i - 1, ..., 1\<close>.
\<close>

fun shuffle_from :: "nat \<Rightarrow> 'a list \<Rightarrow> rng \<Rightarrow> 'a list \<times> rng" where
  "shuffle_from 0 xs g = (xs, g)"
| "shuffle_from (Suc i) xs g =
     (case randbelow (Suc i + 1) g of
        (j, g') \<Rightarrow> shuffle_from i (xs[Suc i := xs ! j, j := xs ! Suc i]) g')"

definition shuffle :: "'a list \<Rightarrow> rng \<Rightarrow> 'a list \<times> rng" where
  "shuffle xs g = shuffle_from (length xs - 1) xs g"

text \<open>
  \<^verbatim>\<open>set_random_seed(seed)\<close> calls \<^verbatim>\<open>random.seed(seed)\<close>. With an integer seed
  the library derives the generator's whole future from the seed alone (the function
  \<open>mt\<close>, a parameter here); with \<^verbatim>\<open>None\<close> it seeds from the operating system
  (the tape \<open>entropy\<close>, which differs from run to run).
\<close>

definition set_random_seed :: "(int \<Rightarrow> nat \<Rightarrow> nat) \<Rightarrow> (nat \<Rightarrow> nat) \<Rightarrow> int option \<Rightarrow> rng" where
  "set_random_seed mt entropy seed =
     (case seed of
        None \<Rightarrow> \<lparr>tape = entropy, pos = 0\<rparr>
      | Some s \<Rightarrow> \<lparr>tape = mt s, pos = 0\<rparr>)"

section \<open>Dice (dice.py)\<close>

record dice =
  number :: int
  sides :: int
  multiplier :: int
  addition :: int

definition Dice :: "int \<Rightarrow> int \<Rightarrow> int \<Rightarrow> int \<Rightarrow> dice" where
  "Dice n s m a = \<lparr>number = n, sides = s, multiplier = m, addition = a\<rparr>"

text \<open>
  \<^verbatim>\<open>sum(random.randint(1, self.sides) for _ in range(self.number))\<close>: the range
  of a negative number is empty, so the loop runs \<open>nat (number d)\<close> times.
\<close>

fun roll_sum :: "nat \<Rightarrow> int \<Rightarrow> rng \<Rightarrow> error + (int \<times> rng)" where
  "roll_sum 0 s g = Inr (0, g)"
| "roll_sum (Suc n) s g =
     (case randint 1 s g of
        Inl e \<Rightarrow> Inl e
      | Inr (v, g1) \<Rightarrow>
          (case roll_sum n s g1 of
             Inl e \<Rightarrow> Inl e
           | Inr (t, g2) \<Rightarrow> Inr (v + t, g2)))"

definition roll :: "dice \<Rightarrow> rng \<Rightarrow> error + (int \<times> rng)" where
  "roll d g =
     (case roll_sum (nat (number d)) (sides d) g of
        Inl e \<Rightarrow> Inl e
      | Inr (result, g') \<Rightarrow>
          (let result1 =
                 (if multiplier d > 0 then result * multiplier d
                  else if multiplier d < 0 then result div \<bar>multiplier d\<bar>
                  else result);
               result2 = result1 + addition d
           in Inr (max result2 0, g')))"

definition max_roll :: "dice \<Rightarrow> int" where
  "max_roll d =
     (let result = number d * sides d;
          result1 =
            (if multiplier d > 0 then result * multiplier d
             else if multiplier d < 0 then result div \<bar>multiplier d\<bar>
             else result);
          result2 = result1 + addition d
      in max result2 0)"

definition min_roll :: "dice \<Rightarrow> int" where
  "min_roll d =
     (let result = number d;
          result1 =
            (if multiplier d > 0 then result * multiplier d
             else if multiplier d < 0 then result div \<bar>multiplier d\<bar>
             else result);
          result2 = result1 + addition d
      in max result2 0)"

subsection \<open>Parsing dice notation\<close>

text \<open>
  \<^verbatim>\<open>Dice.from_string\<close> strips the text and applies
  \<^verbatim>\<open>re.match(r'(\d*)d(\d+)(?:([*/])(\d+))?(?:([+\-])(\d+))?', ..., re.IGNORECASE)\<close>.
  A string is a list of characters with code points below 256. Among them the digits
  of \<^verbatim>\<open>\d\<close> are the ASCII digits, the letters that match \<^verbatim>\<open>d\<close> when case is ignored
  are \<^verbatim>\<open>d\<close> and \<^verbatim>\<open>D\<close>, and the white space that \<^verbatim>\<open>str.strip\<close> removes is the
  characters for which \<^verbatim>\<open>str.isspace\<close> holds: the ASCII white space 9 to 13 and 28
  to 32, U+0085 (next line) and U+00A0 (no-break space).
\<close>

definition is_space :: "char \<Rightarrow> bool" where
  "is_space c = (of_char c \<in> {9, 10, 11, 12, 13, 28, 29, 30, 31, 32, 133, 160 :: nat})"

definition strip :: "string \<Rightarrow> string" where
  "strip s = rev (dropWhile is_space (rev (dropWhile is_space s)))"

definition is_digit :: "char \<Rightarrow> bool" where
  "is_digit c = (48 \<le> (of_char c :: nat) \<and> (of_char c :: nat) \<le> 57)"

text \<open>The number that a string of digits denotes.\<close>

definition digits_value :: "string \<Rightarrow> int" where
  "digits_value ds = foldl (\<lambda>acc c. 10 * acc + (int (of_char c) - 48)) 0 ds"

text \<open>
  Python's \<^verbatim>\<open>int\<close> of a string of digits. The conversion raises \<^verbatim>\<open>ValueError\<close> when
  the string has more than \<^verbatim>\<open>sys.int_max_str_digits\<close> digits, leading zeros counted;
  the limit is 4300 unless the interpreter is configured otherwise.
\<close>

definition MAX_STR_DIGITS :: nat where
  "MAX_STR_DIGITS = 4300"

definition int_of_digits :: "string \<Rightarrow> error + int" where
  "int_of_digits ds =
     (if MAX_STR_DIGITS < length ds then Inl ValueError else Inr (digits_value ds))"

text \<open>
  An optional group \<^verbatim>\<open>(?:([sym])(\d+))?\<close>: a symbol of \<open>syms\<close> and the longest run
  of digits after it, when there is at least one digit; nothing is consumed otherwise.
\<close>

definition opt_group :: "char list \<Rightarrow> string \<Rightarrow> (char \<times> string) option \<times> string" where
  "opt_group syms s =
     (case s of
        [] \<Rightarrow> (None, s)
      | c # rest \<Rightarrow>
          if c \<in> set syms \<and> takeWhile is_digit rest \<noteq> []
          then (Some (c, takeWhile is_digit rest), dropWhile is_digit rest)
          else (None, s))"

text \<open>
  The match at the start of the text. Every quantifier of the pattern is greedy and
  everything after the sides is optional, so the first attempt of the matcher, which
  takes the longest run of digits each time, is the match it returns; and when the
  longest run of leading digits is not followed by \<^verbatim>\<open>d\<close> or \<^verbatim>\<open>D\<close>, no shorter run is
  either. The result is the groups 1, 2, (3, 4) and (5, 6) and the unmatched rest.
\<close>

definition re_match ::
  "string \<Rightarrow> (string \<times> string \<times> (char \<times> string) option \<times> (char \<times> string) option \<times> string) option" where
  "re_match s =
     (let g1 = takeWhile is_digit s in
      case dropWhile is_digit s of
        [] \<Rightarrow> None
      | c # r2 \<Rightarrow>
          if (c = CHR ''d'' \<or> c = CHR ''D'') \<and> takeWhile is_digit r2 \<noteq> [] then
            (let g2 = takeWhile is_digit r2 in
             case opt_group ''*/'' (dropWhile is_digit r2) of
               (g34, r4) \<Rightarrow>
                 (case opt_group ''+-'' r4 of
                    (g56, r5) \<Rightarrow> Some (g1, g2, g34, g56, r5)))
          else None)"

text \<open>
  The four conversions of \<^verbatim>\<open>from_string\<close> are made in the order count, sides,
  multiplier, addition, and the first that raises ends the call.
\<close>

definition from_string :: "string \<Rightarrow> error + dice" where
  "from_string dice_str =
     (case re_match (strip dice_str) of
        None \<Rightarrow> Inl ValueError
      | Some (g1, g2, g34, g56, r) \<Rightarrow>
          (case (if g1 \<noteq> [] then int_of_digits g1 else Inr 1) of
             Inl e \<Rightarrow> Inl e
           | Inr n \<Rightarrow>
               (case int_of_digits g2 of
                  Inl e \<Rightarrow> Inl e
                | Inr s \<Rightarrow>
                    (case (case g34 of
                             None \<Rightarrow> Inr 1
                           | Some (c, v) \<Rightarrow>
                               (case int_of_digits v of
                                  Inl e \<Rightarrow> Inl e
                                | Inr mul_value \<Rightarrow>
                                    Inr (if c = CHR ''*'' then mul_value
                                         else if c = CHR ''/'' then - mul_value
                                         else 1))) of
                       Inl e \<Rightarrow> Inl e
                     | Inr m \<Rightarrow>
                         (case (case g56 of
                                  None \<Rightarrow> Inr 0
                                | Some (c, v) \<Rightarrow>
                                    (case int_of_digits v of
                                       Inl e \<Rightarrow> Inl e
                                     | Inr add_value \<Rightarrow>
                                         Inr (if c = CHR ''+'' then add_value
                                              else if c = CHR ''-'' then - add_value
                                              else 0))) of
                            Inl e \<Rightarrow> Inl e
                          | Inr a \<Rightarrow> Inr (Dice n s m a))))))"

section \<open>Enumerations (enums.py)\<close>

datatype Alignment = LAWFUL | NEUTRAL | CHAOTIC

datatype ArmorType = PLATE | CHAIN | LEATHER | SHIELD

datatype Ability = STRENGTH | INTELLIGENCE | WISDOM | DEXTERITY | CONSTITUTION | CHARISMA

datatype ClassType = FIGHTER | WIZARD | THIEF | ELF | DWARF | HALFLING

text \<open>The members of \<^verbatim>\<open>Ability\<close> in their order of iteration.\<close>

definition Ability_members :: "Ability list" where
  "Ability_members = [STRENGTH, INTELLIGENCE, WISDOM, DEXTERITY, CONSTITUTION, CHARISMA]"

fun ClassType_value :: "ClassType \<Rightarrow> string" where
  "ClassType_value FIGHTER = ''Fighter''"
| "ClassType_value WIZARD = ''Wizard''"
| "ClassType_value THIEF = ''Thief''"
| "ClassType_value ELF = ''Elf''"
| "ClassType_value DWARF = ''Dwarf''"
| "ClassType_value HALFLING = ''Halfling''"

text \<open>\<^verbatim>\<open>Alignment.random_normal\<close>: Lawful 1/6, Neutral 4/6, Chaotic 1/6.\<close>

definition random_normal :: "rng \<Rightarrow> error + (Alignment \<times> rng)" where
  "random_normal g =
     (case randint 1 6 g of
        Inl e \<Rightarrow> Inl e
      | Inr (r, g') \<Rightarrow>
          Inr (if 2 \<le> r \<and> r \<le> 5 then NEUTRAL else if r = 1 then LAWFUL else CHAOTIC, g'))"

section \<open>Equipment (equipment.py)\<close>

definition MAX_MAGIC_BONUS :: int where
  "MAX_MAGIC_BONUS = 5"

record armor =
  armor_type :: ArmorType
  base_armor :: int
  magic_bonus :: int
  weight :: int

text \<open>\<^verbatim>\<open>Armor.__init__\<close>; the constructor of \<^verbatim>\<open>Equipment\<close> caps the magic bonus.\<close>

definition Armor :: "ArmorType \<Rightarrow> int \<Rightarrow> int \<Rightarrow> int \<Rightarrow> armor" where
  "Armor t base w bonus =
     \<lparr>armor_type = t, base_armor = base, magic_bonus = min bonus MAX_MAGIC_BONUS, weight = w\<rparr>"

definition set_magic_bonus :: "armor \<Rightarrow> int \<Rightarrow> armor" where
  "set_magic_bonus a bonus = a\<lparr>magic_bonus := min bonus MAX_MAGIC_BONUS\<rparr>"

definition inc_magic_bonus :: "armor \<Rightarrow> armor" where
  "inc_magic_bonus a = set_magic_bonus a (magic_bonus a + 1)"

definition get_armor_class :: "armor \<Rightarrow> int" where
  "get_armor_class a = base_armor a + magic_bonus a"

text \<open>
  \<^verbatim>\<open>Armor.make_type\<close>. Its last branch raises \<^verbatim>\<open>ValueError\<close> for a type that is
  none of the four; no member of \<^verbatim>\<open>ArmorType\<close> reaches it.
\<close>

fun make_type :: "ArmorType \<Rightarrow> int \<Rightarrow> armor" where
  "make_type PLATE bonus = Armor PLATE 6 4 bonus"
| "make_type CHAIN bonus = Armor CHAIN 4 2 bonus"
| "make_type LEATHER bonus = Armor LEATHER 2 1 bonus"
| "make_type SHIELD bonus = Armor SHIELD 1 1 bonus"

record weapon =
  weapon_name :: string
  weapon_damage_dice :: string
  weapon_weight :: int
  weapon_magic_bonus :: int
  is_magic :: bool

definition Weapon :: "string \<Rightarrow> string \<Rightarrow> int \<Rightarrow> int \<Rightarrow> bool \<Rightarrow> weapon" where
  "Weapon n dd w bonus magic =
     \<lparr>weapon_name = n, weapon_damage_dice = dd, weapon_weight = w,
      weapon_magic_bonus = min bonus MAX_MAGIC_BONUS, is_magic = (magic \<or> bonus > 0)\<rparr>"

definition create_sword :: "int \<Rightarrow> weapon" where
  "create_sword bonus = Weapon ''Sword'' ''1d8'' 1 bonus False"

section \<open>Decimal rendering of integers\<close>

text \<open>Python's \<^verbatim>\<open>str\<close> of an integer, used by the f-strings that build labels.\<close>

definition digit_char :: "nat \<Rightarrow> char" where
  "digit_char n = char_of (48 + n)"

function str_nat :: "nat \<Rightarrow> string" where
  "str_nat n = (if n < 10 then [digit_char n] else str_nat (n div 10) @ [digit_char (n mod 10)])"
  by pat_completeness auto
termination
  by (relation "measure (\<lambda>n. n)") auto

declare str_nat.simps [simp del]

definition str_int :: "int \<Rightarrow> string" where
  "str_int i = (if i < 0 then CHR ''-'' # str_nat (nat (- i)) else str_nat (nat i))"

section \<open>Monsters (monster.py)\<close>

record attack =
  num_attacks :: int
  damage_dice :: string
  attack_bonus :: int

definition Attack :: "int \<Rightarrow> string \<Rightarrow> int \<Rightarrow> attack" where
  "Attack n dd b = \<lparr>num_attacks = n, damage_dice = dd, attack_bonus = b\<rparr>"

definition BASE_HIT_DIE :: int where
  "BASE_HIT_DIE = 6"

text \<open>
  The fields of \<^verbatim>\<open>Monster\<close> that some operation reads or writes. The catalogue
  fields (source book, environment, treasure type and the like) and the special-ability
  sets are set once by the constructor to empty values and are left out.
\<close>

record monster =
  race :: string
  armor_class :: int
  move_inches :: int
  hit_dice :: dice
  attack :: attack
  alignment :: Alignment
  equivalent_hit_dice :: int
  hit_points :: int
  max_hit_points :: int
  kill_tally :: int
  times_meleed :: int

definition roll_hit_points ::
  "'a monster_scheme \<Rightarrow> rng \<Rightarrow> error + ('a monster_scheme \<times> rng)" where
  "roll_hit_points m g =
     (case roll (hit_dice m) g of
        Inl e \<Rightarrow> Inl e
      | Inr (v, g') \<Rightarrow> Inr (m\<lparr>hit_points := v, max_hit_points := v\<rparr>, g'))"

text \<open>
  \<^verbatim>\<open>Monster.__init__\<close>: \<^verbatim>\<open>hit_dice or Dice(1, BASE_HIT_DIE)\<close> and
  \<^verbatim>\<open>attack or Attack(1, "1d6")\<close> replace an absent argument; hit points start at 0 and
  are rolled at the end.
\<close>

definition Monster ::
  "string \<Rightarrow> int \<Rightarrow> int \<Rightarrow> dice option \<Rightarrow> attack option \<Rightarrow> rng \<Rightarrow> error + (monster \<times> rng)" where
  "Monster r ac mv hdice atk g =
     (let hd' = (case hdice of None \<Rightarrow> Dice 1 BASE_HIT_DIE 1 0 | Some d \<Rightarrow> d);
          atk' = (case atk of None \<Rightarrow> Attack 1 ''1d6'' 0 | Some a \<Rightarrow> a)
      in roll_hit_points
           \<lparr>race = r, armor_class = ac, move_inches = mv, hit_dice = hd', attack = atk',
            alignment = NEUTRAL, equivalent_hit_dice = number hd', hit_points = 0,
            max_hit_points = 0, kill_tally = 0, times_meleed = 0\<rparr> g)"

definition heal_fully :: "'a monster_scheme \<Rightarrow> 'a monster_scheme" where
  "heal_fully m = m\<lparr>hit_points := max_hit_points m\<rparr>"

text \<open>\<^verbatim>\<open>take_damage\<close> returns its boolean and the monster as it has become.\<close>

definition take_damage :: "'a monster_scheme \<Rightarrow> int \<Rightarrow> bool \<times> 'a monster_scheme" where
  "take_damage m damage =
     (let m' = m\<lparr>hit_points := hit_points m - damage\<rparr> in (hit_points m' > 0, m'))"

definition is_alive :: "'a monster_scheme \<Rightarrow> bool" where
  "is_alive m = (hit_points m > 0)"

definition is_dead :: "'a monster_scheme \<Rightarrow> bool" where
  "is_dead m = (hit_points m \<le> 0)"

definition get_hit_dice_num :: "'a monster_scheme \<Rightarrow> int" where
  "get_hit_dice_num m = number (hit_dice m)"

definition set_alignment :: "'a monster_scheme \<Rightarrow> Alignment \<Rightarrow> 'a monster_scheme" where
  "set_alignment m al = m\<lparr>alignment := al\<rparr>"

section \<open>Characters (character.py)\<close>

definition BASE_AGE :: int where
  "BASE_AGE = 18"

definition BASE_ARMOR_CLASS :: int where
  "BASE_ARMOR_CLASS = 9"

definition BASE_MOVEMENT :: int where
  "BASE_MOVEMENT = 12"

definition ABILITY_DICE :: "dice list" where
  "ABILITY_DICE = [Dice 3 6 1 0, Dice 2 6 1 6, Dice 2 4 1 10, Dice 2 3 1 12]"

text \<open>Python's list indexing: a negative index counts from the end.\<close>

definition list_index :: "'a list \<Rightarrow> int \<Rightarrow> error + 'a" where
  "list_index xs i =
     (if 0 \<le> i \<and> i < int (length xs) then Inr (xs ! nat i)
      else if i < 0 \<and> - int (length xs) \<le> i then Inr (xs ! nat (int (length xs) + i))
      else Inl IndexError)"

record character = monster +
  name :: string
  age :: int
  class_type :: ClassType
  level :: int
  ability_scores :: "Ability \<rightharpoonup> int"
  ability_score_damage :: "Ability \<rightharpoonup> int"
  armor_worn :: "armor option"
  shield_held :: "armor option"
  weapon_in_hand :: "weapon option"
  experience_points :: int
  sweep_rate :: int

text \<open>The loop of \<^verbatim>\<open>roll_ability_scores\<close> over the abilities still to roll.\<close>

fun roll_abilities :: "dice \<Rightarrow> Ability list \<Rightarrow> character \<Rightarrow> rng \<Rightarrow> error + (character \<times> rng)" where
  "roll_abilities d [] c g = Inr (c, g)"
| "roll_abilities d (a # rest) c g =
     (case roll d g of
        Inl e \<Rightarrow> Inl e
      | Inr (v, g') \<Rightarrow>
          roll_abilities d rest
            (c\<lparr>ability_scores := (ability_scores c)(a \<mapsto> v),
               ability_score_damage := (ability_score_damage c)(a \<mapsto> 0)\<rparr>) g')"

definition roll_ability_scores :: "character \<Rightarrow> int \<Rightarrow> rng \<Rightarrow> error + (character \<times> rng)" where
  "roll_ability_scores c dice_option g =
     (case list_index ABILITY_DICE dice_option of
        Inl e \<Rightarrow> Inl e
      | Inr d \<Rightarrow> roll_abilities d Ability_members c g)"

text \<open>
  \<^verbatim>\<open>Character.__init__\<close>: the constructor of \<^verbatim>\<open>Monster\<close> first (armor class
  \<^verbatim>\<open>BASE_ARMOR_CLASS\<close>, hit dice \<^verbatim>\<open>Dice(level, 6)\<close>, a first roll of hit points),
  then the character's own fields, the ability scores, empty equipment slots, and a
  second roll of hit points. It does not call \<^verbatim>\<open>update_armor_class\<close>.
\<close>

definition Character :: "string \<Rightarrow> int \<Rightarrow> ClassType \<Rightarrow> rng \<Rightarrow> error + (character \<times> rng)" where
  "Character nm lvl ct g =
     (case Monster (ClassType_value ct @ '' '' @ str_int lvl) BASE_ARMOR_CLASS BASE_MOVEMENT
             (Some (Dice lvl 6 1 0)) (Some (Attack 1 ''1d8'' 0)) g of
        Inl e \<Rightarrow> Inl e
      | Inr (m, g1) \<Rightarrow>
          (case roll_ability_scores
                  (monster.extend m
                     (character.fields nm BASE_AGE ct lvl Map.empty Map.empty None None None 0 0))
                  0 g1 of
             Inl e \<Rightarrow> Inl e
           | Inr (c, g2) \<Rightarrow> roll_hit_points c g2))"

definition get_ability_score :: "character \<Rightarrow> Ability \<Rightarrow> int" where
  "get_ability_score c a =
     (let base = (case ability_scores c a of None \<Rightarrow> 10 | Some v \<Rightarrow> v);
          damage = (case ability_score_damage c a of None \<Rightarrow> 0 | Some v \<Rightarrow> v)
      in max 0 (base - damage))"

definition get_ability_modifier :: "character \<Rightarrow> Ability \<Rightarrow> int" where
  "get_ability_modifier c a =
     (let score = get_ability_score c a
      in if score \<le> 8 then - 1 else if score \<le> 12 then 0 else 1)"

definition take_ability_damage :: "character \<Rightarrow> Ability \<Rightarrow> int \<Rightarrow> character" where
  "take_ability_damage c a damage =
     (let current = (case ability_score_damage c a of None \<Rightarrow> 0 | Some v \<Rightarrow> v)
      in c\<lparr>ability_score_damage := (ability_score_damage c)(a \<mapsto> current + damage)\<rparr>)"

definition zero_ability_damage :: "character \<Rightarrow> character" where
  "zero_ability_damage c =
     c\<lparr>ability_score_damage :=
         fold (\<lambda>a m. m(a \<mapsto> 0)) Ability_members (ability_score_damage c)\<rparr>"

text \<open>
  \<^verbatim>\<open>update_armor_class\<close>. An armor object is always truthy, so
  \<^verbatim>\<open>if self.armor_worn\<close> tests the slot for \<^verbatim>\<open>None\<close>.
\<close>

definition update_armor_class :: "character \<Rightarrow> character" where
  "update_armor_class c =
     (let ac = BASE_ARMOR_CLASS;
          ac1 = (case armor_worn c of None \<Rightarrow> ac | Some a \<Rightarrow> ac - get_armor_class a);
          ac2 = (case shield_held c of None \<Rightarrow> ac1 | Some s \<Rightarrow> ac1 - get_armor_class s);
          dex_mod = get_ability_modifier c DEXTERITY;
          ac3 = ac2 - dex_mod
      in c\<lparr>armor_class := ac3\<rparr>)"

definition set_armor :: "character \<Rightarrow> armor option \<Rightarrow> character" where
  "set_armor c a = update_armor_class (c\<lparr>armor_worn := a\<rparr>)"

definition set_shield :: "character \<Rightarrow> armor option \<Rightarrow> character" where
  "set_shield c s = update_armor_class (c\<lparr>shield_held := s\<rparr>)"

definition set_weapon :: "character \<Rightarrow> weapon option \<Rightarrow> character" where
  "set_weapon c w = c\<lparr>weapon_in_hand := w\<rparr>"

definition add_xp :: "character \<Rightarrow> int \<Rightarrow> character" where
  "add_xp c xp = c\<lparr>experience_points := experience_points c + xp\<rparr>"

definition level_up :: "character \<Rightarrow> rng \<Rightarrow> error + (character \<times> rng)" where
  "level_up c g =
     (let c1 = c\<lparr>level := level c + 1\<rparr>;
          c2 = c1\<lparr>hit_dice := Dice (level c1) 6 1 0\<rparr>
      in roll_hit_points c2 g)"

section \<open>Parties (party.py)\<close>

text \<open>
  A party holds monsters and characters alike; \<^verbatim>\<open>get_level\<close> is the one method
  the two classes implement differently (hit dice for a monster, the level for a
  character). A member is therefore a value of either class, and each method a party
  calls is dispatched on it. Members are values here: the model assumes that a party
  never holds the same object twice.
\<close>

datatype combatant = Mon monster | Chr character

definition member_hit_points :: "combatant \<Rightarrow> int" where
  "member_hit_points x = (case x of Mon m \<Rightarrow> hit_points m | Chr c \<Rightarrow> hit_points c)"

definition member_max_hit_points :: "combatant \<Rightarrow> int" where
  "member_max_hit_points x = (case x of Mon m \<Rightarrow> max_hit_points m | Chr c \<Rightarrow> max_hit_points c)"

definition member_is_alive :: "combatant \<Rightarrow> bool" where
  "member_is_alive x = (case x of Mon m \<Rightarrow> is_alive m | Chr c \<Rightarrow> is_alive c)"

definition member_is_dead :: "combatant \<Rightarrow> bool" where
  "member_is_dead x = (case x of Mon m \<Rightarrow> is_dead m | Chr c \<Rightarrow> is_dead c)"

definition member_heal_fully :: "combatant \<Rightarrow> combatant" where
  "member_heal_fully x = (case x of Mon m \<Rightarrow> Mon (heal_fully m) | Chr c \<Rightarrow> Chr (heal_fully c))"

definition member_take_damage :: "combatant \<Rightarrow> int \<Rightarrow> bool \<times> combatant" where
  "member_take_damage x damage =
     (case x of
        Mon m \<Rightarrow> (case take_damage m damage of (b, m') \<Rightarrow> (b, Mon m'))
      | Chr c \<Rightarrow> (case take_damage c damage of (b, c') \<Rightarrow> (b, Chr c')))"

definition member_get_level :: "combatant \<Rightarrow> int" where
  "member_get_level x = (case x of Mon m \<Rightarrow> get_hit_dice_num m | Chr c \<Rightarrow> level c)"

record party =
  members :: "combatant list"

definition Party :: party where
  "Party = \<lparr>members = []\<rparr>"

definition add_member :: "party \<Rightarrow> combatant \<Rightarrow> party" where
  "add_member p m = p\<lparr>members := members p @ [m]\<rparr>"

definition remove_member :: "party \<Rightarrow> combatant \<Rightarrow> party" where
  "remove_member p m = (if m \<in> set (members p) then p\<lparr>members := remove1 m (members p)\<rparr> else p)"

definition get_size :: "party \<Rightarrow> int" where
  "get_size p = int (length (members p))"

definition is_empty :: "party \<Rightarrow> bool" where
  "is_empty p = (length (members p) = 0)"

definition get_living_members :: "party \<Rightarrow> combatant list" where
  "get_living_members p = filter member_is_alive (members p)"

definition get_dead_members :: "party \<Rightarrow> combatant list" where
  "get_dead_members p = filter member_is_dead (members p)"

definition num_living :: "party \<Rightarrow> int" where
  "num_living p = int (length (get_living_members p))"

definition num_dead :: "party \<Rightarrow> int" where
  "num_dead p = int (length (get_dead_members p))"

definition shuffle_members :: "party \<Rightarrow> rng \<Rightarrow> party \<times> rng" where
  "shuffle_members p g = (case shuffle (members p) g of (ms, g') \<Rightarrow> (p\<lparr>members := ms\<rparr>, g'))"

text \<open>\<^verbatim>\<open>bring_out_your_dead\<close> returns the dead and the party as it has become.\<close>

definition bring_out_your_dead :: "party \<Rightarrow> combatant list \<times> party" where
  "bring_out_your_dead p =
     (let dead = get_dead_members p;
          p' = p\<lparr>members := get_living_members p\<rparr>
      in (dead, p'))"

definition clear_fallen :: "party \<Rightarrow> party" where
  "clear_fallen p = snd (bring_out_your_dead p)"

definition heal_all :: "party \<Rightarrow> party" where
  "heal_all p = p\<lparr>members := map member_heal_fully (members p)\<rparr>"

text \<open>
  \<^verbatim>\<open>get_average_level\<close> divides two integers into a float; the model keeps the exact
  quotient, of which the float is the rounding.
\<close>

definition get_average_level :: "party \<Rightarrow> rat" where
  "get_average_level p =
     (if members p = [] then 0
      else of_int (sum_list (map member_get_level (members p))) / of_int (int (length (members p))))"

text \<open>
  The loop of Python's \<^verbatim>\<open>max(iterable, key=...)\<close>: the best member so far is replaced
  only by one whose key is strictly greater.
\<close>

fun max_by_level :: "combatant \<Rightarrow> combatant list \<Rightarrow> combatant" where
  "max_by_level best [] = best"
| "max_by_level best (m # ms) =
     max_by_level (if member_get_level m > member_get_level best then m else best) ms"

text \<open>
  \<^verbatim>\<open>get_highest_level_member\<close> has no \<^verbatim>\<open>raise\<close>: on an empty party it returns
  Python's \<^verbatim>\<open>None\<close>, which is the \<open>None\<close> of the model.
\<close>

definition get_highest_level_member :: "party \<Rightarrow> combatant option" where
  "get_highest_level_member p =
     (case members p of
        [] \<Rightarrow> None
      | m # ms \<Rightarrow> Some (max_by_level m ms))"

section \<open>The arena (arena.py)\<close>

text \<open>
  The fields of \<^verbatim>\<open>Arena\<close> that the simulation reads. \<open>self_id\<close> is Python's
  \<^verbatim>\<open>id(self)\<close>, the identity of the arena object, which \<^verbatim>\<open>new_fighter\<close> writes
  into every fighter's name; it is no field of the class and differs from run to run.
\<close>

record arena =
  num_years :: int
  fights_per_year :: int
  num_fighters :: int
  start_level :: int
  fighter_party_size :: int
  fight_man_vs_monster :: bool
  report_year_end :: bool
  base_armor_type :: "ArmorType option"
  fighter_list :: party
  self_id :: nat

definition Arena :: "nat \<Rightarrow> arena" where
  "Arena i =
     \<lparr>num_years = 50, fights_per_year = 12, num_fighters = 100, start_level = 1,
      fighter_party_size = 1, fight_man_vs_monster = False, report_year_end = False,
      base_armor_type = Some PLATE, fighter_list = Party, self_id = i\<rparr>"

definition new_fighter :: "arena \<Rightarrow> int \<Rightarrow> rng \<Rightarrow> error + (character \<times> rng)" where
  "new_fighter a lvl g =
     (case Character (''Fighter_'' @ str_nat (self_id a)) lvl FIGHTER g of
        Inl e \<Rightarrow> Inl e
      | Inr (fighter, g1) \<Rightarrow>
          (case random_normal g1 of
             Inl e \<Rightarrow> Inl e
           | Inr (al, g2) \<Rightarrow>
               (let f1 = set_alignment fighter al;
                    f2 = (case base_armor_type a of
                            None \<Rightarrow> f1
                          | Some t \<Rightarrow> set_armor f1 (Some (make_type t 0)));
                    f3 = set_weapon f2 (Some (create_sword 0))
                in Inr (f3, g2))))"

function recruit_new_fighters :: "arena \<Rightarrow> rng \<Rightarrow> error + (arena \<times> rng)" where
  "recruit_new_fighters a g =
     (if get_size (fighter_list a) < num_fighters a then
        (case new_fighter a (start_level a) g of
           Inl e \<Rightarrow> Inl e
         | Inr (fighter, g') \<Rightarrow>
             recruit_new_fighters
               (a\<lparr>fighter_list := add_member (fighter_list a) (Chr fighter)\<rparr>) g')
      else Inr (a, g))"
  by pat_completeness auto
termination
  by (relation "measure (\<lambda>(a, g). nat (num_fighters a - get_size (fighter_list a)))")
     (auto simp: get_size_def add_member_def)

text \<open>
  \<^verbatim>\<open>_simple_combat\<close>: the two fighters are distinct objects, so a blow dealt to one
  leaves the other as it was. The function returns the two fighters as the combat
  leaves them.
\<close>

function simple_combat ::
  "combatant \<Rightarrow> combatant \<Rightarrow> rng \<Rightarrow> error + (combatant \<times> combatant \<times> rng)" where
  "simple_combat fighter1 fighter2 g =
     (if member_is_alive fighter1 \<and> member_is_alive fighter2 then
        (case roll (Dice 1 8 1 0) g of
           Inl e \<Rightarrow> Inl e
         | Inr (damage, g1) \<Rightarrow>
             (let fighter2' = snd (member_take_damage fighter2 damage)
              in if \<not> member_is_alive fighter2' then Inr (fighter1, fighter2', g1)
                 else
                   (case roll (Dice 1 8 1 0) g1 of
                      Inl e \<Rightarrow> Inl e
                    | Inr (damage2, g2) \<Rightarrow>
                        simple_combat (snd (member_take_damage fighter1 damage2)) fighter2' g2)))
      else Inr (fighter1, fighter2, g))"
  by pat_completeness auto
termination
proof (relation "measure (\<lambda>(f1, f2, g). nat (member_hit_points f1))", goal_cases)
  case 1
  show ?case by simp
next
  case (2 fighter1 fighter2 g x damage g1 fighter2' y damage2 g2)
  have r: "roll (Dice 1 8 1 0) g1 = Inr (damage2, g2)"
    using 2 by simp
  have "roll_sum (Suc 0) 8 g1 = Inr (1 + int (tape g1 (pos g1) mod 8), g1\<lparr>pos := Suc (pos g1)\<rparr>)"
    by (simp add: randint_def randbelow_def)
  then have "damage2 = 1 + int (tape g1 (pos g1) mod 8)"
    using r by (simp add: roll_def Dice_def)
  then have "1 \<le> damage2"
    by simp
  moreover have "0 < member_hit_points fighter1"
    using 2 by (auto simp: member_is_alive_def member_hit_points_def is_alive_def
        split: combatant.splits)
  moreover have "member_hit_points (snd (member_take_damage fighter1 damage2)) =
      member_hit_points fighter1 - damage2"
    by (auto simp: member_take_damage_def member_hit_points_def take_damage_def
        split: combatant.splits)
  ultimately show ?case by simp
qed

text \<open>
  \<^verbatim>\<open>fight_duels_man_vs_man\<close>: the loop \<^verbatim>\<open>for i in range(0, len(members) - 1, 2)\<close>.
  The fighters are changed in place, so the list keeps its length and each combat
  writes its two fighters back at their indices.
\<close>

function duel_loop :: "nat \<Rightarrow> combatant list \<Rightarrow> rng \<Rightarrow> error + (combatant list \<times> rng)" where
  "duel_loop i ms g =
     (if int i < int (length ms) - 1 then
        (case simple_combat (ms ! i) (ms ! (i + 1)) g of
           Inl e \<Rightarrow> Inl e
         | Inr (fighter1, fighter2, g') \<Rightarrow>
             duel_loop (i + 2) (ms[i := fighter1, i + 1 := fighter2]) g')
      else Inr (ms, g))"
  by pat_completeness auto
termination
  by (relation "measure (\<lambda>(i, ms, g). length ms - i)") auto

definition fight_duels_man_vs_man :: "arena \<Rightarrow> rng \<Rightarrow> error + (arena \<times> rng)" where
  "fight_duels_man_vs_man a g =
     (case duel_loop 0 (members (fighter_list a)) g of
        Inl e \<Rightarrow> Inl e
      | Inr (ms, g') \<Rightarrow> Inr (a\<lparr>fighter_list := (fighter_list a)\<lparr>members := ms\<rparr>\<rparr>, g'))"

text \<open>\<^verbatim>\<open>fight_duels_man_vs_monster\<close> is a placeholder that prints a line and fights nothing.\<close>

definition fight_duels_man_vs_monster :: "arena \<Rightarrow> rng \<Rightarrow> error + (arena \<times> rng)" where
  "fight_duels_man_vs_monster a g = Inr (a, g)"

definition fight_duels :: "arena \<Rightarrow> rng \<Rightarrow> error + (arena \<times> rng)" where
  "fight_duels a g =
     (if fight_man_vs_monster a then fight_duels_man_vs_monster a g
      else fight_duels_man_vs_man a g)"

definition run_one_cycle :: "arena \<Rightarrow> rng \<Rightarrow> error + (arena \<times> rng)" where
  "run_one_cycle a g =
     (case recruit_new_fighters a g of
        Inl e \<Rightarrow> Inl e
      | Inr (a1, g1) \<Rightarrow>
          (case shuffle_members (fighter_list a1) g1 of
             (p2, g2) \<Rightarrow>
               (case fight_duels (a1\<lparr>fighter_list := p2\<rparr>) g2 of
                  Inl e \<Rightarrow> Inl e
                | Inr (a3, g3) \<Rightarrow>
                    (let p4 = snd (bring_out_your_dead (fighter_list a3));
                         p5 = clear_fallen p4;
                         p6 = heal_all p5
                     in Inr (a3\<lparr>fighter_list := p6\<rparr>, g3)))))"

text \<open>
  \<^verbatim>\<open>year_end\<close> prints the year's snapshot when year-end reporting is on; the printed
  lines are modelled as a list of reports.
\<close>

record year_report =
  year :: int
  living_fighters :: int
  average_level :: rat

definition year_end :: "arena \<Rightarrow> int \<Rightarrow> year_report list" where
  "year_end a y =
     (if report_year_end a then
        [\<lparr>year = y, living_fighters = num_living (fighter_list a),
          average_level = get_average_level (fighter_list a)\<rparr>]
      else [])"

text \<open>The inner loop of \<^verbatim>\<open>run_sim\<close>: \<^verbatim>\<open>for _ in range(self.fights_per_year)\<close>.\<close>

fun run_cycles :: "nat \<Rightarrow> arena \<Rightarrow> rng \<Rightarrow> error + (arena \<times> rng)" where
  "run_cycles 0 a g = Inr (a, g)"
| "run_cycles (Suc n) a g =
     (case run_one_cycle a g of
        Inl e \<Rightarrow> Inl e
      | Inr (a', g') \<Rightarrow> run_cycles n a' g')"

text \<open>
  The outer loop, \<^verbatim>\<open>for year in range(1, self.num_years + 1)\<close>, with the number of
  years still to run, the current year and the reports printed so far.
\<close>

fun run_years ::
  "nat \<Rightarrow> int \<Rightarrow> arena \<Rightarrow> rng \<Rightarrow> year_report list \<Rightarrow> error + (arena \<times> rng \<times> year_report list)" where
  "run_years 0 y a g out = Inr (a, g, out)"
| "run_years (Suc n) y a g out =
     (case run_cycles (nat (fights_per_year a)) a g of
        Inl e \<Rightarrow> Inl e
      | Inr (a', g') \<Rightarrow> run_years n (y + 1) a' g' (out @ year_end a' y))"

definition run_sim :: "arena \<Rightarrow> rng \<Rightarrow> error + (arena \<times> rng \<times> year_report list)" where
  "run_sim a g = run_years (nat (num_years a)) 1 a g []"

section \<open>Sample data\<close>

text \<open>
  Sample data: the monster \<^verbatim>\<open>Monster("Goblin", 6, 12)\<close> of the tests, as the constructor
  leaves it when its hit die shows \<open>hp\<close>, with \<open>n\<close> hit dice.
\<close>

definition sample_monster :: "int \<Rightarrow> int \<Rightarrow> monster" where
  "sample_monster n hp =
     \<lparr>race = ''Goblin'', armor_class = 6, move_inches = 12, hit_dice = Dice n 6 1 0,
      attack = Attack 1 ''1d6'' 0, alignment = NEUTRAL, equivalent_hit_dice = n,
      hit_points = hp, max_hit_points = hp, kill_tally = 0, times_meleed = 0\<rparr>"

section \<open>Combat as the specification words it\<close>

text \<open>
  The specification's account of a duel: the two combatants exchange blows of rolled
  damage in strict alternation, the first member of the pair striking first.
  \<open>blows n\<close> is the pair after \<open>n\<close> such blows: blow number \<open>n + 1\<close> is struck by
  the first fighter when \<open>n\<close> is even and by the second when it is odd, each with its
  own roll of \<^verbatim>\<open>Dice(1, 8)\<close>.
\<close>

fun blows :: "nat \<Rightarrow> combatant \<Rightarrow> combatant \<Rightarrow> rng \<Rightarrow> combatant \<times> combatant \<times> rng" where
  "blows 0 f1 f2 g = (f1, f2, g)"
| "blows (Suc n) f1 f2 g =
     (case blows n f1 f2 g of
        (a, b, h) \<Rightarrow>
          (case roll (Dice 1 8 1 0) h of
             Inl e \<Rightarrow> (a, b, h)
           | Inr (damage, h') \<Rightarrow>
               if even n then (a, snd (member_take_damage b damage), h')
               else (snd (member_take_damage a damage), b, h')))"

text \<open>
  The specification's account of the duel phase: the population, in its shuffled
  order, is cut into consecutive pairs, each pair is resolved by a combat, and an odd
  trailing member sits out.
\<close>

fun duel_pairs :: "combatant list \<Rightarrow> rng \<Rightarrow> error + (combatant list \<times> rng)" where
  "duel_pairs (a # b # rest) g =
     (case simple_combat a b g of
        Inl e \<Rightarrow> Inl e
      | Inr (a', b', g') \<Rightarrow>
          (case duel_pairs rest g' of
             Inl e \<Rightarrow> Inl e
           | Inr (rest', g'') \<Rightarrow> Inr (a' # b' # rest', g'')))"
| "duel_pairs rest g = Inr (rest, g)"

text \<open>An arena whose population is three goblins of 3, 5 and 4 hit points.\<close>

definition sample_arena :: arena where
  "sample_arena =
     (Arena 0)\<lparr>fighter_list :=
       \<lparr>members = [Mon (sample_monster 1 3), Mon (sample_monster 1 5), Mon (sample_monster 1 4)]\<rparr>\<rparr>"

section \<open>Dice notation as the specification words it\<close>

text \<open>
  The grammar \<^verbatim>\<open>[count]'d'sides[('*'|'/')magnitude][('+'|'-')amount]\<close>: a text is
  made of a count (digits, possibly none), the letter, the sides (at least one digit)
  and two optional parts, each a symbol and at least one digit.
\<close>

definition digits :: "string \<Rightarrow> bool" where
  "digits s = list_all is_digit s"

definition opt_part_ok :: "char list \<Rightarrow> (char \<times> string) option \<Rightarrow> bool" where
  "opt_part_ok syms p =
     (case p of None \<Rightarrow> True | Some (c, v) \<Rightarrow> c \<in> set syms \<and> v \<noteq> [] \<and> digits v)"

definition opt_part_text :: "(char \<times> string) option \<Rightarrow> string" where
  "opt_part_text p = (case p of None \<Rightarrow> [] | Some (c, v) \<Rightarrow> c # v)"

definition well_formed ::
  "string \<Rightarrow> string \<Rightarrow> (char \<times> string) option \<Rightarrow> (char \<times> string) option \<Rightarrow> bool" where
  "well_formed cnt sd m a =
     (digits cnt \<and> sd \<noteq> [] \<and> digits sd \<and> opt_part_ok ''*/'' m \<and> opt_part_ok ''+-'' a)"

definition dice_text ::
  "string \<Rightarrow> char \<Rightarrow> string \<Rightarrow> (char \<times> string) option \<Rightarrow> (char \<times> string) option \<Rightarrow> string" where
  "dice_text cnt d sd m a = cnt @ d # sd @ opt_part_text m @ opt_part_text a"

definition dice_grammar :: "string \<Rightarrow> bool" where
  "dice_grammar s = (\<exists>cnt sd m a. well_formed cnt sd m a \<and> s = dice_text cnt (CHR ''d'') sd m a)"

text \<open>
  The dice a text of the grammar stands for: the count defaults to 1, \<^verbatim>\<open>*\<close> gives a
  multiplier and \<^verbatim>\<open>/\<close> a divisor (a negative multiplier), \<^verbatim>\<open>+\<close> and \<^verbatim>\<open>-\<close> the
  addition.
\<close>

definition dice_of ::
  "string \<Rightarrow> string \<Rightarrow> (char \<times> string) option \<Rightarrow> (char \<times> string) option \<Rightarrow> dice" where
  "dice_of cnt sd m a =
     Dice (if cnt = [] then 1 else digits_value cnt) (digits_value sd)
       (case m of None \<Rightarrow> 1
        | Some (c, v) \<Rightarrow> if c = CHR ''*'' then digits_value v else - digits_value v)
       (case a of None \<Rightarrow> 0
        | Some (c, v) \<Rightarrow> if c = CHR ''+'' then digits_value v else - digits_value v)"

text \<open>
  The numbers of a text that the interpreter converts: none has more digits than
  \<^verbatim>\<open>sys.int_max_str_digits\<close>.
\<close>

definition part_short :: "(char \<times> string) option \<Rightarrow> bool" where
  "part_short p = (case p of None \<Rightarrow> True | Some (c, v) \<Rightarrow> length v \<le> MAX_STR_DIGITS)"

definition short_numbers ::
  "string \<Rightarrow> string \<Rightarrow> (char \<times> string) option \<Rightarrow> (char \<times> string) option \<Rightarrow> bool" where
  "short_numbers cnt sd m a =
     (length cnt \<le> MAX_STR_DIGITS \<and> length sd \<le> MAX_STR_DIGITS \<and> part_short m \<and> part_short a)"

section \<open>What a run shows\<close>

text \<open>
  Two runs of the simulation are compared by what they show of the arena: its
  configuration and its population, member by member and in order, with everything the
  members carry (hit points, hit dice, level, ability scores, equipment, armor class)
  but their names. A fighter's name is \<^verbatim>\<open>f"Fighter_{id(self)}"\<close>, the address of the arena
  object, which no seed determines.
\<close>

definition without_name :: "combatant \<Rightarrow> combatant" where
  "without_name x = (case x of Mon m \<Rightarrow> Mon m | Chr c \<Rightarrow> Chr (c\<lparr>name := []\<rparr>))"

definition observable :: "arena \<Rightarrow> arena" where
  "observable a =
     a\<lparr>self_id := 0,
       fighter_list := \<lparr>members = map without_name (members (fighter_list a))\<rparr>\<rparr>"

text \<open>What a finished run shows: the arena, the generator it leaves and the year-end reports.\<close>

definition observed_run ::
  "error + (arena \<times> rng \<times> year_report list) \<Rightarrow> error + (arena \<times> rng \<times> year_report list)" where
  "observed_run r =
     (case r of Inl e \<Rightarrow> Inl e | Inr (a, g, out) \<Rightarrow> Inr (observable a, g, out))"

definition observed_cycle :: "error + (arena \<times> rng) \<Rightarrow> error + (arena \<times> rng)" where
  "observed_cycle r = (case r of Inl e \<Rightarrow> Inl e | Inr (a, g) \<Rightarrow> Inr (observable a, g))"

text \<open>The fighter \<^verbatim>\<open>new_fighter\<close> returns, its name apart.\<close>

definition unnamed_fighter :: "error + (character \<times> rng) \<Rightarrow> error + (character \<times> rng)" where
  "unnamed_fighter r = (case r of Inl e \<Rightarrow> Inl e | Inr (f, g) \<Rightarrow> Inr (f\<lparr>name := []\<rparr>, g))"
text \<open>The steps of a cycle that follow the recruiting: shuffle, duels, culling, healing.\<close>

definition after_recruiting :: "arena \<Rightarrow> rng \<Rightarrow> error + (arena \<times> rng)" where
  "after_recruiting a1 g1 =
     (case shuffle_members (fighter_list a1) g1 of
        (p2, g2) \<Rightarrow>
          (case fight_duels (a1\<lparr>fighter_list := p2\<rparr>) g2 of
             Inl e \<Rightarrow> Inl e
           | Inr (a3, g3) \<Rightarrow>
               Inr (a3\<lparr>fighter_list :=
                      heal_all (clear_fallen (snd (bring_out_your_dead (fighter_list a3))))\<rparr>, g3)))"

section \<open>Properties of the dice engine\<close>

lemma randint_value:
  assumes "a \<le> b"
  shows "randint a b g =
    Inr (a + int (tape g (pos g) mod nat (b - a + 1)), g\<lparr>pos := Suc (pos g)\<rparr>)"
  using assms by (simp add: randint_def randbelow_def)

lemma randint_ok:
  assumes "a \<le> b"
  shows "\<exists>v. randint a b g = Inr (v, g\<lparr>pos := Suc (pos g)\<rparr>) \<and> a \<le> v \<and> v \<le> b"
proof -
  have "tape g (pos g) mod nat (b - a + 1) < nat (b - a + 1)"
    using assms by (intro mod_less_divisor) simp
  then have "int (tape g (pos g) mod nat (b - a + 1)) \<le> b - a"
    by linarith
  then show ?thesis
    by (simp add: randint_value [OF assms])
qed

lemma roll_sum_ok:
  assumes "1 \<le> s"
  shows "\<exists>v. roll_sum n s g = Inr (v, g\<lparr>pos := pos g + n\<rparr>) \<and> int n \<le> v \<and> v \<le> int n * s"
proof (induction n arbitrary: g)
  case 0
  show ?case by simp
next
  case (Suc n)
  obtain v where v: "randint 1 s g = Inr (v, g\<lparr>pos := Suc (pos g)\<rparr>)" "1 \<le> v" "v \<le> s"
    using randint_ok [OF assms] by blast
  obtain t where t: "roll_sum n s (g\<lparr>pos := Suc (pos g)\<rparr>) = Inr (t, g\<lparr>pos := Suc (pos g) + n\<rparr>)"
      "int n \<le> t" "t \<le> int n * s"
    using Suc.IH [of "g\<lparr>pos := Suc (pos g)\<rparr>"] by auto
  show ?case
    using v t by (simp add: algebra_simps)
qed

lemma pipeline_mono:
  fixes x y m a :: int
  assumes "x \<le> y"
  shows "max ((if m > 0 then x * m else if m < 0 then x div \<bar>m\<bar> else x) + a) 0
       \<le> max ((if m > 0 then y * m else if m < 0 then y div \<bar>m\<bar> else y) + a) 0"
proof -
  have clamp: "max (u + a) 0 \<le> max (v + a) 0" if "u \<le> v" for u v :: int
    using that by linarith
  consider "m > 0" | "m < 0" | "m = 0" by linarith
  then show ?thesis
  proof cases
    case 1
    then have "x * m \<le> y * m"
      using assms by (simp add: mult_right_mono)
    from clamp [OF this] 1 show ?thesis by simp
  next
    case 2
    then have "x div \<bar>m\<bar> \<le> y div \<bar>m\<bar>"
      using assms by (intro zdiv_mono1) simp_all
    from clamp [OF this] 2 show ?thesis by simp
  next
    case 3
    with clamp [OF assms] show ?thesis by simp
  qed
qed

lemma roll_sum_const:
  assumes "1 \<le> s" "tape g = (\<lambda>_. c)"
  shows "roll_sum n s g = Inr (int n * (1 + int (c mod nat s)), g\<lparr>pos := pos g + n\<rparr>)"
  using assms(2)
proof (induction n arbitrary: g)
  case 0
  show ?case by simp
next
  case (Suc n)
  have "roll_sum n s (g\<lparr>pos := Suc (pos g)\<rparr>) =
      Inr (int n * (1 + int (c mod nat s)), g\<lparr>pos := Suc (pos g) + n\<rparr>)"
    using Suc.IH [of "g\<lparr>pos := Suc (pos g)\<rparr>"] Suc.prems by simp
  then show ?case
    using Suc.prems by (simp add: randint_value [OF assms(1)] algebra_simps)
qed

lemma roll_value:
  assumes "roll_sum (nat (number d)) (sides d) g = Inr (v, g')"
  shows "roll d g =
    Inr (max ((if multiplier d > 0 then v * multiplier d
               else if multiplier d < 0 then v div \<bar>multiplier d\<bar> else v) + addition d) 0, g')"
  using assms by (simp add: roll_def Let_def)

text \<open>
  Claim C5. For every dice expression with a number of dice at least 0 and at least one
  side, and for every state of the generator, \<^verbatim>\<open>roll\<close> returns a value between
  \<^verbatim>\<open>min_roll\<close> and \<^verbatim>\<open>max_roll\<close>. The two bounds are the same pipeline (multiply or
  floor-divide, add, clamp at 0) run on the least and the greatest sum of the dice: a
  generator whose every die shows 1 makes \<^verbatim>\<open>roll\<close> return \<^verbatim>\<open>min_roll\<close>, and one
  whose every die shows \<^verbatim>\<open>sides\<close> makes it return \<^verbatim>\<open>max_roll\<close>. The sum of the dice
  is not negative, so the floor division of the source is also the truncating one.
\<close>

theorem roll_between_min_roll_and_max_roll:
  assumes "0 \<le> number d" and "1 \<le> sides d"
  shows "(\<exists>v g'. roll d g = Inr (v, g') \<and> min_roll d \<le> v \<and> v \<le> max_roll d)
    \<and> (\<exists>g'. roll d \<lparr>tape = (\<lambda>_. 0), pos = 0\<rparr> = Inr (min_roll d, g'))
    \<and> (\<exists>g'. roll d \<lparr>tape = (\<lambda>_. nat (sides d - 1)), pos = 0\<rparr> = Inr (max_roll d, g'))"
proof (intro conjI)
  obtain t where t: "roll_sum (nat (number d)) (sides d) g = Inr (t, g\<lparr>pos := pos g + nat (number d)\<rparr>)"
      "int (nat (number d)) \<le> t" "t \<le> int (nat (number d)) * sides d"
    using roll_sum_ok [OF assms(2)] by blast
  have lo: "number d \<le> t" and hi: "t \<le> number d * sides d"
    using t assms(1) by simp_all
  have "min_roll d \<le> max ((if multiplier d > 0 then t * multiplier d
               else if multiplier d < 0 then t div \<bar>multiplier d\<bar> else t) + addition d) 0"
    unfolding min_roll_def Let_def by (rule pipeline_mono [OF lo])
  moreover have "max ((if multiplier d > 0 then t * multiplier d
               else if multiplier d < 0 then t div \<bar>multiplier d\<bar> else t) + addition d) 0 \<le> max_roll d"
    unfolding max_roll_def Let_def by (rule pipeline_mono [OF hi])
  ultimately show "\<exists>v g'. roll d g = Inr (v, g') \<and> min_roll d \<le> v \<and> v \<le> max_roll d"
    using roll_value [OF t(1)] by blast
next
  have "roll_sum (nat (number d)) (sides d) \<lparr>tape = (\<lambda>_. 0), pos = 0\<rparr> =
      Inr (number d, \<lparr>tape = (\<lambda>_. 0), pos = nat (number d)\<rparr>)"
    using roll_sum_const [OF assms(2), of "\<lparr>tape = (\<lambda>_. 0), pos = 0\<rparr>" 0 "nat (number d)"] assms(1)
    by simp
  from roll_value [OF this] show "\<exists>g'. roll d \<lparr>tape = (\<lambda>_. 0), pos = 0\<rparr> = Inr (min_roll d, g')"
    by (simp add: min_roll_def Let_def)
next
  let ?g = "\<lparr>tape = (\<lambda>_. nat (sides d - 1)), pos = 0\<rparr>"
  have "nat (sides d - 1) mod nat (sides d) = nat (sides d - 1)"
    using assms(2) by (intro mod_less) linarith
  then have "roll_sum (nat (number d)) (sides d) ?g =
      Inr (number d * sides d, \<lparr>tape = (\<lambda>_. nat (sides d - 1)), pos = nat (number d)\<rparr>)"
    using roll_sum_const [OF assms(2), of ?g "nat (sides d - 1)" "nat (number d)"] assms
    by simp
  from roll_value [OF this] show "\<exists>g'. roll d ?g = Inr (max_roll d, g')"
    by (simp add: max_roll_def Let_def)
qed

text \<open>The expression \<^verbatim>\<open>2d8+3\<close> on a generator whose dice show 3 and 8: the roll is 14, within 5 and 19.\<close>

lemma roll_2d8_plus_3:
  "roll (Dice 2 8 1 3) \<lparr>tape = (\<lambda>i. 5 * i + 2), pos = 0\<rparr> = Inr (14, \<lparr>tape = (\<lambda>i. 5 * i + 2), pos = 2\<rparr>)"
  by (simp add: roll_def Dice_def randint_def randbelow_def numeral_2_eq_2)

theorem roll_between_min_roll_and_max_roll_witness:
  "0 \<le> number (Dice 2 8 1 3) \<and> 1 \<le> sides (Dice 2 8 1 3)
   \<and> roll (Dice 2 8 1 3) \<lparr>tape = (\<lambda>i. 5 * i + 2), pos = 0\<rparr>
       = Inr (14, \<lparr>tape = (\<lambda>i. 5 * i + 2), pos = 2\<rparr>)
   \<and> min_roll (Dice 2 8 1 3) = 5 \<and> max_roll (Dice 2 8 1 3) = 19
   \<and> (\<exists>v g'. roll (Dice 2 8 1 3) \<lparr>tape = (\<lambda>i. 5 * i + 2), pos = 0\<rparr> = Inr (v, g')
        \<and> min_roll (Dice 2 8 1 3) \<le> v \<and> v \<le> max_roll (Dice 2 8 1 3))"
proof -
  have h1: "0 \<le> number (Dice 2 8 1 3)" and h2: "1 \<le> sides (Dice 2 8 1 3)"
    by (simp_all add: Dice_def)
  have "min_roll (Dice 2 8 1 3) = 5" and "max_roll (Dice 2 8 1 3) = 19"
    by (simp_all add: min_roll_def max_roll_def Dice_def)
  then show ?thesis
    using h1 h2 roll_2d8_plus_3
      roll_between_min_roll_and_max_roll [OF h1 h2, of "\<lparr>tape = (\<lambda>i. 5 * i + 2), pos = 0\<rparr>"]
    by simp
qed

section \<open>Properties of the combat entity model\<close>

lemma Monster_goblin:
  "Monster ''Goblin'' 6 12 None None \<lparr>tape = (\<lambda>_. 2), pos = 0\<rparr>
     = Inr (sample_monster 1 3, \<lparr>tape = (\<lambda>_. 2), pos = 1\<rparr>)"
  by (simp add: Monster_def roll_hit_points_def roll_def Dice_def BASE_HIT_DIE_def
      randint_def randbelow_def sample_monster_def)

text \<open>
  Claim C1 as stated fails: \<^verbatim>\<open>take_damage\<close> has no guard on the sign of the amount, so
  a negative amount is no no-op. The goblin with 3 hit points that takes \<open>- 5\<close> damage has
  8 hit points afterwards.
\<close>

theorem take_damage_negative_counterexample:
  "(- 5 :: int) \<le> 0 \<and> hit_points (sample_monster 1 3) = 3
   \<and> hit_points (snd (take_damage (sample_monster 1 3) (- 5))) = 8
   \<and> hit_points (snd (take_damage (sample_monster 1 3) (- 5))) \<noteq> hit_points (sample_monster 1 3)"
  by (simp add: take_damage_def sample_monster_def)

text \<open>
  Claim C1, amended. For every monster or character and every amount, of either sign,
  \<^verbatim>\<open>take_damage\<close> changes nothing but the hit points, which become the old hit points
  minus the amount, with no floor and no ceiling; it returns whether the new hit points
  are positive. So the amount 0 leaves the combatant as it was, a positive amount
  lowers the hit points, and a negative amount raises them. The function has no
  failing branch.
\<close>

theorem take_damage_subtracts:
  "snd (take_damage m amount) = m\<lparr>hit_points := hit_points m - amount\<rparr>
   \<and> fst (take_damage m amount) = (hit_points m - amount > 0)
   \<and> fst (take_damage m amount) = is_alive (snd (take_damage m amount))
   \<and> take_damage m 0 = (is_alive m, m)
   \<and> (amount > 0 \<longrightarrow> hit_points (snd (take_damage m amount)) < hit_points m)
   \<and> (amount < 0 \<longrightarrow> hit_points (snd (take_damage m amount)) > hit_points m)"
  by (simp add: take_damage_def is_alive_def Let_def)

theorem take_damage_subtracts_witness:
  "snd (take_damage (sample_monster 1 3) 5) = (sample_monster 1 3)\<lparr>hit_points := - 2\<rparr>
   \<and> fst (take_damage (sample_monster 1 3) 5) = False
   \<and> (5 :: int) > 0
   \<and> hit_points (snd (take_damage (sample_monster 1 3) 5)) < hit_points (sample_monster 1 3)"
  using take_damage_subtracts [of "sample_monster 1 3" 5]
  by (simp add: sample_monster_def)

section \<open>Properties of the party\<close>

lemma alive_iff_not_dead: "member_is_dead m = (\<not> member_is_alive m)"
  by (auto simp: member_is_dead_def member_is_alive_def is_dead_def is_alive_def
      split: combatant.splits)

lemma member_is_alive_hit_points: "member_is_alive m = (member_hit_points m > 0)"
  by (simp add: member_is_alive_def member_hit_points_def is_alive_def split: combatant.splits)

text \<open>
  Claim C7. For every party, the living and the dead members partition the members by
  \<open>hit_points > 0\<close>: each list is the members filtered in their order, every member is
  in exactly one of them, and the two counts add up to the size. The two queries return
  lists and no party, so they change nothing. \<^verbatim>\<open>bring_out_your_dead\<close> returns the dead
  members in the order they had in the party, keeps the living ones in theirs, and
  leaves a party with no dead member.
\<close>

theorem living_dead_partition:
  "get_living_members p = filter (\<lambda>m. member_hit_points m > 0) (members p)
   \<and> get_dead_members p = filter (\<lambda>m. \<not> member_hit_points m > 0) (members p)
   \<and> num_living p + num_dead p = get_size p
   \<and> mset (get_living_members p) + mset (get_dead_members p) = mset (members p)
   \<and> fst (bring_out_your_dead p) = get_dead_members p
   \<and> subseq (fst (bring_out_your_dead p)) (members p)
   \<and> members (snd (bring_out_your_dead p)) = get_living_members p
   \<and> num_dead (snd (bring_out_your_dead p)) = 0
   \<and> get_size (snd (bring_out_your_dead p)) = num_living p"
proof -
  have alive: "member_is_alive = (\<lambda>m. member_hit_points m > 0)"
    by (rule ext) (rule member_is_alive_hit_points)
  have dead: "member_is_dead = (\<lambda>m. \<not> member_hit_points m > 0)"
    by (rule ext) (simp add: alive_iff_not_dead member_is_alive_hit_points)
  have count: "length (filter (\<lambda>m. member_hit_points m > 0) xs)
      + length (filter (\<lambda>m. \<not> member_hit_points m > 0) xs) = length xs" for xs
    by (rule sum_length_filter_compl)
  have part: "mset (filter (\<lambda>m. member_hit_points m > 0) xs)
      + mset (filter (\<lambda>m. \<not> member_hit_points m > 0) xs) = mset xs" for xs
    by (induction xs) auto
  have none: "filter (\<lambda>m. \<not> member_hit_points m > 0) (filter (\<lambda>m. member_hit_points m > 0) xs) = []" for xs
    by (induction xs) auto
  show ?thesis
    unfolding get_living_members_def get_dead_members_def num_living_def num_dead_def
      get_size_def bring_out_your_dead_def Let_def alive dead
    using count [of "members p"] part [of "members p"] none [of "members p"]
    by simp
qed

lemma max_by_level_first:
  "\<exists>pre post. best # ms = pre @ max_by_level best ms # post
     \<and> (\<forall>x\<in>set pre. member_get_level x < member_get_level (max_by_level best ms))
     \<and> (\<forall>x\<in>set post. member_get_level x \<le> member_get_level (max_by_level best ms))"
proof (induction ms arbitrary: best)
  case Nil
  have "[best] = [] @ best # []" by simp
  then show ?case by fastforce
next
  case (Cons m ms)
  show ?case
  proof (cases "member_get_level m > member_get_level best")
    case True
    define r where "r = max_by_level m ms"
    have eq: "max_by_level best (m # ms) = r"
      using True by (simp add: r_def)
    obtain pre post where d: "m # ms = pre @ r # post"
        "\<forall>x\<in>set pre. member_get_level x < member_get_level r"
        "\<forall>x\<in>set post. member_get_level x \<le> member_get_level r"
      using Cons.IH [of m] unfolding r_def by blast
    have "member_get_level m \<le> member_get_level r"
    proof (cases pre)
      case Nil
      with d(1) show ?thesis by simp
    next
      case (Cons a pre')
      with d(1) have "m \<in> set pre" by simp
      with d(2) show ?thesis by fastforce
    qed
    with True have "member_get_level best < member_get_level r"
      by simp
    with d have "best # m # ms = (best # pre) @ r # post
        \<and> (\<forall>x\<in>set (best # pre). member_get_level x < member_get_level r)
        \<and> (\<forall>x\<in>set post. member_get_level x \<le> member_get_level r)"
      by simp
    then show ?thesis
      unfolding eq by blast
  next
    case False
    define r where "r = max_by_level best ms"
    have eq: "max_by_level best (m # ms) = r"
      using False by (simp add: r_def)
    obtain pre post where d: "best # ms = pre @ r # post"
        "\<forall>x\<in>set pre. member_get_level x < member_get_level r"
        "\<forall>x\<in>set post. member_get_level x \<le> member_get_level r"
      using Cons.IH [of best] unfolding r_def by blast
    show ?thesis
    proof (cases pre)
      case Nil
      with d have "best # m # ms = [] @ r # (m # post)
          \<and> (\<forall>x\<in>set (m # post). member_get_level x \<le> member_get_level r)"
        using False by auto
      then show ?thesis
        unfolding eq by (metis empty_iff list.set(1))
    next
      case (Cons a pre')
      with d(1) have a: "a = best" and ms: "ms = pre' @ r # post"
        by simp_all
      have "member_get_level best < member_get_level r"
        using d(2) Cons a by simp
      with False d(2,3) Cons a ms
      have "best # m # ms = (best # m # pre') @ r # post
          \<and> (\<forall>x\<in>set (best # m # pre'). member_get_level x < member_get_level r)
          \<and> (\<forall>x\<in>set post. member_get_level x \<le> member_get_level r)"
        by auto
      then show ?thesis
        unfolding eq by blast
    qed
  qed
qed

text \<open>
  Claim C4 as stated fails: \<^verbatim>\<open>get_highest_level_member\<close> raises nothing on an empty
  party. It returns \<^verbatim>\<open>None\<close>, as its docstring says.
\<close>

theorem highest_level_of_empty_party_counterexample:
  "get_highest_level_member Party = None"
  by (simp add: get_highest_level_member_def Party_def)

text \<open>
  Claim C4, amended. On an empty party \<^verbatim>\<open>get_highest_level_member\<close> returns
  \<^verbatim>\<open>None\<close> without raising, and only there. On a party with members it returns the
  first member, in the order of the party, among those of the greatest level: every
  member before it has a strictly smaller level and every member after it a level at
  most as great.
\<close>

theorem highest_level_is_first_maximal:
  "(get_highest_level_member p = None \<longleftrightarrow> members p = [])
   \<and> (members p \<noteq> [] \<longrightarrow>
        (\<exists>pre r post. get_highest_level_member p = Some r \<and> members p = pre @ r # post
           \<and> (\<forall>x\<in>set pre. member_get_level x < member_get_level r)
           \<and> (\<forall>x\<in>set post. member_get_level x \<le> member_get_level r)))"
proof (cases "members p")
  case Nil
  then show ?thesis by (simp add: get_highest_level_member_def)
next
  case (Cons m ms)
  then have "get_highest_level_member p = Some (max_by_level m ms)"
    by (simp add: get_highest_level_member_def)
  then show ?thesis
    using max_by_level_first [of m ms] Cons by auto
qed

theorem highest_level_is_first_maximal_witness:
  "members \<lparr>members = [Mon (sample_monster 1 3), Mon (sample_monster 3 5), Mon (sample_monster 3 7)]\<rparr> \<noteq> []
   \<and> get_highest_level_member
        \<lparr>members = [Mon (sample_monster 1 3), Mon (sample_monster 3 5), Mon (sample_monster 3 7)]\<rparr>
       = Some (Mon (sample_monster 3 5))
   \<and> member_get_level (Mon (sample_monster 1 3)) < member_get_level (Mon (sample_monster 3 5))
   \<and> member_get_level (Mon (sample_monster 3 7)) \<le> member_get_level (Mon (sample_monster 3 5))"
  using highest_level_is_first_maximal
    [of "\<lparr>members = [Mon (sample_monster 1 3), Mon (sample_monster 3 5), Mon (sample_monster 3 7)]\<rparr>"]
  by (simp add: get_highest_level_member_def member_get_level_def get_hit_dice_num_def
      sample_monster_def Dice_def)

section \<open>Properties of the armor class\<close>

lemma roll_d6_all_sixes:
  assumes "tape g = (\<lambda>_. 5)" "0 \<le> n"
  shows "roll (Dice n 6 1 0) g = Inr (6 * n, g\<lparr>pos := pos g + nat n\<rparr>)"
proof -
  have "roll_sum (nat n) 6 g = Inr (int (nat n) * (1 + int (5 mod nat 6)), g\<lparr>pos := pos g + nat n\<rparr>)"
    using roll_sum_const [of 6 g 5 "nat n"] assms(1) by simp
  then have "roll_sum (nat (number (Dice n 6 1 0))) (sides (Dice n 6 1 0)) g
      = Inr (6 * n, g\<lparr>pos := pos g + nat n\<rparr>)"
    using assms(2) by (simp add: Dice_def)
  from roll_value [OF this] assms(2) show ?thesis
    by (simp add: Dice_def)
qed

lemma update_armor_class_formula:
  "armor_class (update_armor_class c) =
     9 - (case armor_worn c of None \<Rightarrow> 0 | Some a \<Rightarrow> base_armor a + magic_bonus a)
       - (case shield_held c of None \<Rightarrow> 0 | Some s \<Rightarrow> base_armor s + magic_bonus s)
       - get_ability_modifier c DEXTERITY"
  by (simp add: update_armor_class_def BASE_ARMOR_CLASS_def get_armor_class_def Let_def
      split: option.splits)

lemma Character_all_sixes:
  "\<exists>c. Character ''Bob'' 1 FIGHTER \<lparr>tape = (\<lambda>_. 5), pos = 0\<rparr> = Inr (c, \<lparr>tape = (\<lambda>_. 5), pos = 20\<rparr>)
     \<and> armor_class c = 9 \<and> armor_worn c = None \<and> shield_held c = None
     \<and> ability_scores c DEXTERITY = Some 18 \<and> ability_score_damage c DEXTERITY = Some 0"
  by (simp add: Character_def Monster_def roll_hit_points_def roll_d6_all_sixes
      roll_ability_scores_def list_index_def ABILITY_DICE_def Ability_members_def
      BASE_ARMOR_CLASS_def BASE_MOVEMENT_def BASE_AGE_def BASE_HIT_DIE_def
      monster.defs character.defs Let_def)

lemma set_armor_armor_class:
  "armor_class (set_armor c a) =
     9 - (case a of None \<Rightarrow> 0 | Some x \<Rightarrow> base_armor x + magic_bonus x)
       - (case shield_held c of None \<Rightarrow> 0 | Some s \<Rightarrow> base_armor s + magic_bonus s)
       - get_ability_modifier c DEXTERITY"
  by (simp add: set_armor_def update_armor_class_formula get_ability_modifier_def
      get_ability_score_def)

lemma set_shield_armor_class:
  "armor_class (set_shield c s) =
     9 - (case armor_worn c of None \<Rightarrow> 0 | Some a \<Rightarrow> base_armor a + magic_bonus a)
       - (case s of None \<Rightarrow> 0 | Some x \<Rightarrow> base_armor x + magic_bonus x)
       - get_ability_modifier c DEXTERITY"
  by (simp add: set_shield_def update_armor_class_formula get_ability_modifier_def
      get_ability_score_def)

text \<open>
  The scenario of the specification: plate armor and a shield +1 on a character of
  dexterity modifier 0 give the armor class \<open>9 - 6 - 2 - 0 = 1\<close>.
\<close>

lemma plate_and_shield_armor_class:
  assumes "get_ability_modifier c DEXTERITY = 0"
  shows "armor_class (set_shield (set_armor c (Some (make_type PLATE 0))) (Some (make_type SHIELD 1))) = 1"
proof -
  have "get_ability_modifier (set_armor c (Some (make_type PLATE 0))) DEXTERITY = 0"
    using assms
    by (simp add: set_armor_def update_armor_class_def get_ability_modifier_def
        get_ability_score_def Let_def)
  moreover have "armor_worn (set_armor c (Some (make_type PLATE 0))) = Some (make_type PLATE 0)"
    by (simp add: set_armor_def update_armor_class_def Let_def)
  ultimately show ?thesis
    by (simp add: set_shield_armor_class Armor_def MAX_MAGIC_BONUS_def)
qed

text \<open>
  Claim C2 at a failing input. \<^verbatim>\<open>Character("Bob", 1, ClassType.FIGHTER)\<close> on a generator
  whose every die shows 6 has dexterity 18, hence dexterity modifier 1, and no
  equipment; the claim gives it the armor class \<open>9 - 1 = 8\<close>. The constructor never
  calls \<^verbatim>\<open>update_armor_class\<close>, so the armor class is the 9 the constructor of
  \<^verbatim>\<open>Monster\<close> was given. Putting on no armor at all, \<^verbatim>\<open>set_armor(None)\<close>, recomputes it
  to 8; and dexterity damage of 10 afterwards, which turns the modifier into \<open>- 1\<close>,
  leaves it at 8 where the claim gives 10, since \<^verbatim>\<open>take_ability_damage\<close> does not
  recompute it either.
\<close>

theorem fresh_character_armor_class_ignores_dexterity:
  "\<exists>c g'. Character ''Bob'' 1 FIGHTER \<lparr>tape = (\<lambda>_. 5), pos = 0\<rparr> = Inr (c, g')
     \<and> armor_worn c = None \<and> shield_held c = None
     \<and> get_ability_score c DEXTERITY = 18 \<and> get_ability_modifier c DEXTERITY = 1
     \<and> armor_class c = 9
     \<and> armor_class c \<noteq> 9 - get_ability_modifier c DEXTERITY
     \<and> armor_class (set_armor c None) = 8
     \<and> get_ability_modifier (take_ability_damage (set_armor c None) DEXTERITY 10) DEXTERITY = - 1
     \<and> armor_class (take_ability_damage (set_armor c None) DEXTERITY 10) = 8"
proof -
  obtain c where c: "Character ''Bob'' 1 FIGHTER \<lparr>tape = (\<lambda>_. 5), pos = 0\<rparr>
        = Inr (c, \<lparr>tape = (\<lambda>_. 5), pos = 20\<rparr>)"
      "armor_class c = 9" "armor_worn c = None" "shield_held c = None"
      "ability_scores c DEXTERITY = Some 18" "ability_score_damage c DEXTERITY = Some 0"
    using Character_all_sixes by blast
  have score: "get_ability_score c DEXTERITY = 18" and dex: "get_ability_modifier c DEXTERITY = 1"
    using c(5,6) by (simp_all add: get_ability_modifier_def get_ability_score_def)
  have ac: "armor_class (set_armor c None) = 8"
    using c(4) dex by (simp add: set_armor_armor_class)
  have "get_ability_modifier (take_ability_damage (set_armor c None) DEXTERITY 10) DEXTERITY = - 1"
    using c(5,6)
    by (simp add: take_ability_damage_def set_armor_def update_armor_class_def
        get_ability_modifier_def get_ability_score_def Let_def)
  moreover have "armor_class (take_ability_damage (set_armor c None) DEXTERITY 10) = 8"
    using ac by (simp add: take_ability_damage_def Let_def)
  ultimately show ?thesis
    using c(1-4) score dex ac by simp
qed

section \<open>Properties of the duel\<close>

declare simple_combat.simps [simp del]

lemma roll_1d8:
  "roll (Dice 1 8 1 0) g = Inr (1 + int (tape g (pos g) mod 8), g\<lparr>pos := Suc (pos g)\<rparr>)"
  by (simp add: roll_def Dice_def randint_def randbelow_def)

lemma member_take_damage_hit_points:
  "member_hit_points (snd (member_take_damage x d)) = member_hit_points x - d"
  by (simp add: member_take_damage_def member_hit_points_def take_damage_def
      split: combatant.splits)

lemma member_take_damage_max_hit_points:
  "member_max_hit_points (snd (member_take_damage x d)) = member_max_hit_points x"
  by (simp add: member_take_damage_def member_max_hit_points_def take_damage_def
      split: combatant.splits)

lemma blows_two_more:
  "blows (Suc (Suc n)) f1 f2 g =
     blows n (snd (member_take_damage f1 (1 + int (tape g (Suc (pos g)) mod 8))))
             (snd (member_take_damage f2 (1 + int (tape g (pos g) mod 8))))
             (g\<lparr>pos := Suc (Suc (pos g))\<rparr>)"
proof (induction n)
  case 0
  show ?case by (simp add: roll_1d8)
next
  case (Suc n)
  have "blows (Suc (Suc (Suc n))) f1 f2 g =
      (case blows (Suc (Suc n)) f1 f2 g of
        (a, b, h) \<Rightarrow>
          (case roll (Dice 1 8 1 0) h of
             Inl e \<Rightarrow> (a, b, h)
           | Inr (damage, h') \<Rightarrow>
               if even (Suc (Suc n)) then (a, snd (member_take_damage b damage), h')
               else (snd (member_take_damage a damage), b, h')))"
    by (rule blows.simps(2))
  also have "\<dots> = blows (Suc n) (snd (member_take_damage f1 (1 + int (tape g (Suc (pos g)) mod 8))))
             (snd (member_take_damage f2 (1 + int (tape g (pos g) mod 8))))
             (g\<lparr>pos := Suc (Suc (pos g))\<rparr>)"
    unfolding Suc.IH by (simp split: prod.splits sum.splits)
  finally show ?case .
qed


lemma simple_combat_is_blows:
  "member_is_alive fighter1 \<Longrightarrow> member_is_alive fighter2 \<Longrightarrow>
   \<exists>n. 0 < n
     \<and> simple_combat fighter1 fighter2 g = Inr (blows n fighter1 fighter2 g)
     \<and> (\<forall>k<n. case blows k fighter1 fighter2 g of
                  (a, b, h) \<Rightarrow> member_is_alive a \<and> member_is_alive b)
     \<and> (case blows n fighter1 fighter2 g of
          (a, b, h) \<Rightarrow>
            pos h = pos g + n \<and> tape h = tape g
            \<and> (if odd n then member_is_alive a \<and> member_is_dead b
                else member_is_dead a \<and> member_is_alive b))"
proof (induction fighter1 fighter2 g rule: simple_combat.induct)
  case (1 fighter1 fighter2 g)
  define d1 where "d1 = 1 + int (tape g (pos g) mod 8)"
  define g1 where "g1 = g\<lparr>pos := Suc (pos g)\<rparr>"
  define f2' where "f2' = snd (member_take_damage fighter2 d1)"
  define d2 where "d2 = 1 + int (tape g (Suc (pos g)) mod 8)"
  define g2 where "g2 = g\<lparr>pos := Suc (Suc (pos g))\<rparr>"
  define f1' where "f1' = snd (member_take_damage fighter1 d2)"
  have r1: "roll (Dice 1 8 1 0) g = Inr (d1, g1)"
    by (simp add: roll_1d8 d1_def g1_def)
  have r2: "roll (Dice 1 8 1 0) g1 = Inr (d2, g2)"
    by (simp add: roll_1d8 d2_def g2_def g1_def)
  have b0: "blows 0 fighter1 fighter2 g = (fighter1, fighter2, g)"
    by simp
  have b1: "blows (Suc 0) fighter1 fighter2 g = (fighter1, f2', g1)"
    by (simp add: r1 f2'_def)
  have b2: "blows (Suc (Suc 0)) fighter1 fighter2 g = (f1', f2', g2)"
    using blows_two_more [of 0 fighter1 fighter2 g] by (simp add: f1'_def f2'_def d1_def d2_def g2_def)
  have unfold: "simple_combat fighter1 fighter2 g =
      (if \<not> member_is_alive f2' then Inr (fighter1, f2', g1)
       else simple_combat f1' f2' g2)"
    using "1.prems"
    by (subst simple_combat.simps) (simp add: r1 r2 f2'_def f1'_def Let_def)
  show ?case
  proof (cases "member_is_alive f2'")
    case False
    have "\<forall>k<Suc 0. case blows k fighter1 fighter2 g of
        (a, b, h) \<Rightarrow> member_is_alive a \<and> member_is_alive b"
      using "1.prems" by simp
    moreover have "simple_combat fighter1 fighter2 g = Inr (blows (Suc 0) fighter1 fighter2 g)"
      using False unfold b1 by simp
    moreover have "case blows (Suc 0) fighter1 fighter2 g of
        (a, b, h) \<Rightarrow> pos h = pos g + Suc 0 \<and> tape h = tape g
          \<and> (if odd (Suc 0) then member_is_alive a \<and> member_is_dead b
              else member_is_dead a \<and> member_is_alive b)"
      using False "1.prems" b1 by (simp add: g1_def alive_iff_not_dead)
    ultimately show ?thesis
      by (intro exI [of _ "Suc 0"]) simp
  next
    case True
    show ?thesis
    proof (cases "member_is_alive f1'")
      case False
      have stop: "simple_combat f1' f2' g2 = Inr (f1', f2', g2)"
        using False by (subst simple_combat.simps) simp
      have "\<forall>k<Suc (Suc 0). case blows k fighter1 fighter2 g of
          (a, b, h) \<Rightarrow> member_is_alive a \<and> member_is_alive b"
      proof (intro allI impI)
        fix k assume "k < Suc (Suc 0)"
        then consider "k = 0" | "k = Suc 0" by linarith
        then show "case blows k fighter1 fighter2 g of
          (a, b, h) \<Rightarrow> member_is_alive a \<and> member_is_alive b"
          using "1.prems" True b1 by cases simp_all
      qed
      moreover have "simple_combat fighter1 fighter2 g = Inr (blows (Suc (Suc 0)) fighter1 fighter2 g)"
        using True unfold stop b2 by simp
      moreover have "case blows (Suc (Suc 0)) fighter1 fighter2 g of
          (a, b, h) \<Rightarrow> pos h = pos g + Suc (Suc 0) \<and> tape h = tape g
            \<and> (if odd (Suc (Suc 0)) then member_is_alive a \<and> member_is_dead b
                else member_is_dead a \<and> member_is_alive b)"
        using False True b2 by (simp add: g2_def alive_iff_not_dead)
      ultimately show ?thesis
        by (intro exI [of _ "Suc (Suc 0)"]) simp
    next
      case False2: True
      have "\<exists>n. 0 < n
         \<and> simple_combat f1' f2' g2 = Inr (blows n f1' f2' g2)
         \<and> (\<forall>k<n. case blows k f1' f2' g2 of
                  (a, b, h) \<Rightarrow> member_is_alive a \<and> member_is_alive b)
         \<and> (case blows n f1' f2' g2 of
              (a, b, h) \<Rightarrow>
                pos h = pos g2 + n \<and> tape h = tape g2
                \<and> (if odd n then member_is_alive a \<and> member_is_dead b
                    else member_is_dead a \<and> member_is_alive b))"
        using "1.IH" [of "(d1, g1)" d1 g1 f2' "(d2, g2)" d2 g2] "1.prems" r1 r2 True False2
        by (simp add: f1'_def f2'_def)
      then obtain n where nn: "0 < n
         \<and> simple_combat f1' f2' g2 = Inr (blows n f1' f2' g2)
         \<and> (\<forall>k<n. case blows k f1' f2' g2 of
                  (a, b, h) \<Rightarrow> member_is_alive a \<and> member_is_alive b)
         \<and> (case blows n f1' f2' g2 of
              (a, b, h) \<Rightarrow>
                pos h = pos g2 + n \<and> tape h = tape g2
                \<and> (if odd n then member_is_alive a \<and> member_is_dead b
                    else member_is_dead a \<and> member_is_alive b))" ..
      note n = conjunct1 [OF nn] conjunct1 [OF conjunct2 [OF nn]]
        conjunct1 [OF conjunct2 [OF conjunct2 [OF nn]]]
        conjunct2 [OF conjunct2 [OF conjunct2 [OF nn]]]
      have shift: "blows (Suc (Suc k)) fighter1 fighter2 g = blows k f1' f2' g2" for k
        using blows_two_more [of k fighter1 fighter2 g]
        by (simp add: f1'_def f2'_def d1_def d2_def g2_def)
      have "\<forall>k<Suc (Suc n). case blows k fighter1 fighter2 g of
          (a, b, h) \<Rightarrow> member_is_alive a \<and> member_is_alive b"
      proof (intro allI impI)
        fix k assume k: "k < Suc (Suc n)"
        consider "k = 0" | "k = Suc 0" | j where "k = Suc (Suc j)"
          by (metis not0_implies_Suc)
        then show "case blows k fighter1 fighter2 g of
          (a, b, h) \<Rightarrow> member_is_alive a \<and> member_is_alive b"
        proof cases
          case 1
          then show ?thesis using "1.prems" by simp
        next
          case 2
          then show ?thesis using "1.prems" True b1 by simp
        next
          case 3
          then have "j < n" using k by simp
          then show ?thesis using n(3) 3 shift by simp
        qed
      qed
      moreover have "simple_combat fighter1 fighter2 g = Inr (blows (Suc (Suc n)) fighter1 fighter2 g)"
        using True unfold n(2) shift by simp
      moreover have "case blows (Suc (Suc n)) fighter1 fighter2 g of
          (a, b, h) \<Rightarrow> pos h = pos g + Suc (Suc n) \<and> tape h = tape g
            \<and> (if odd (Suc (Suc n)) then member_is_alive a \<and> member_is_dead b
                else member_is_dead a \<and> member_is_alive b)"
        using n(4) unfolding shift by (auto simp: g2_def split: prod.splits)
      ultimately show ?thesis
        by (intro exI [of _ "Suc (Suc n)"]) simp
    qed
  qed
qed


text \<open>
  Claim C6. For every pair of combatants that are both alive, and every state of the
  generator, \<^verbatim>\<open>_simple_combat\<close> returns (the function is total: every blow deals at
  least 1 damage, so the loop ends) and raises nothing. What it returns is the pair
  after some number \<open>n \<ge> 1\<close> of blows struck in strict alternation, the first fighter
  striking first, one roll of the generator each. After every smaller number of blows
  both are alive, so \<open>n\<close> is the first moment at which one of them is dead; at the end
  exactly one is dead and the other alive, the dead one being the second fighter when
  \<open>n\<close> is odd (the first fighter struck last, and received no blow in return) and the
  first when \<open>n\<close> is even.
\<close>

theorem simple_combat_alternates_until_one_is_dead:
  assumes "member_is_alive fighter1" and "member_is_alive fighter2"
  shows "\<exists>n f1' f2' g'.
      simple_combat fighter1 fighter2 g = Inr (f1', f2', g')
      \<and> 0 < n
      \<and> blows n fighter1 fighter2 g = (f1', f2', g')
      \<and> (\<forall>k<n. case blows k fighter1 fighter2 g of
                   (a, b, h) \<Rightarrow> member_is_alive a \<and> member_is_alive b)
      \<and> ((member_is_alive f1' \<and> member_is_dead f2') \<or> (member_is_dead f1' \<and> member_is_alive f2'))
      \<and> (member_is_dead f2' \<longleftrightarrow> odd n)
      \<and> pos g' = pos g + n"
proof -
  obtain n where nn: "0 < n
     \<and> simple_combat fighter1 fighter2 g = Inr (blows n fighter1 fighter2 g)
     \<and> (\<forall>k<n. case blows k fighter1 fighter2 g of
                  (a, b, h) \<Rightarrow> member_is_alive a \<and> member_is_alive b)
     \<and> (case blows n fighter1 fighter2 g of
          (a, b, h) \<Rightarrow>
            pos h = pos g + n \<and> tape h = tape g
            \<and> (if odd n then member_is_alive a \<and> member_is_dead b
                else member_is_dead a \<and> member_is_alive b))"
    using simple_combat_is_blows [OF assms] ..
  obtain f1' f2' g' where b: "blows n fighter1 fighter2 g = (f1', f2', g')"
    by (cases "blows n fighter1 fighter2 g") auto
  have fin: "pos g' = pos g + n"
      "if odd n then member_is_alive f1' \<and> member_is_dead f2'
       else member_is_dead f1' \<and> member_is_alive f2'"
    using conjunct2 [OF conjunct2 [OF conjunct2 [OF nn]]] unfolding b by simp_all
  have one: "(member_is_alive f1' \<and> member_is_dead f2') \<or> (member_is_dead f1' \<and> member_is_alive f2')"
    using fin(2) by (cases "odd n") simp_all
  have which: "member_is_dead f2' \<longleftrightarrow> odd n"
    using fin(2) by (cases "odd n") (simp_all add: alive_iff_not_dead)
  have "simple_combat fighter1 fighter2 g = Inr (f1', f2', g')"
    using conjunct1 [OF conjunct2 [OF nn]] b by simp
  moreover note conjunct1 [OF nn] b conjunct1 [OF conjunct2 [OF conjunct2 [OF nn]]] one which fin(1)
  ultimately show ?thesis
    by (intro exI [of _ n] exI [of _ f1'] exI [of _ f2'] exI [of _ g'] conjI)
qed

text \<open>
  Two goblins of 3 and 5 hit points on a generator whose every die shows 3: the first
  strikes (5 to 2), the second strikes back (3 to 0), and the combat ends with the
  first dead and the second alive.
\<close>

lemma simple_combat_goblins:
  "simple_combat (Mon (sample_monster 1 3)) (Mon (sample_monster 1 5)) \<lparr>tape = (\<lambda>_. 2), pos = 0\<rparr>
       = Inr (Mon ((sample_monster 1 3)\<lparr>hit_points := 0\<rparr>),
              Mon ((sample_monster 1 5)\<lparr>hit_points := 2\<rparr>),
              \<lparr>tape = (\<lambda>_. 2), pos = 2\<rparr>)"
  apply (subst simple_combat.simps)
  apply (simp add: roll_1d8 member_is_alive_def is_alive_def member_take_damage_def
      take_damage_def sample_monster_def Let_def)
  apply (subst simple_combat.simps)
  apply (simp add: member_is_alive_def is_alive_def)
  done

theorem simple_combat_alternates_until_one_is_dead_witness:
  "member_is_alive (Mon (sample_monster 1 3)) \<and> member_is_alive (Mon (sample_monster 1 5))
   \<and> simple_combat (Mon (sample_monster 1 3)) (Mon (sample_monster 1 5)) \<lparr>tape = (\<lambda>_. 2), pos = 0\<rparr>
       = Inr (Mon ((sample_monster 1 3)\<lparr>hit_points := 0\<rparr>),
              Mon ((sample_monster 1 5)\<lparr>hit_points := 2\<rparr>),
              \<lparr>tape = (\<lambda>_. 2), pos = 2\<rparr>)
   \<and> (\<exists>(n::nat) f1' f2' g'.
      simple_combat (Mon (sample_monster 1 3)) (Mon (sample_monster 1 5)) \<lparr>tape = (\<lambda>_. 2), pos = 0\<rparr>
        = Inr (f1', f2', g')
      \<and> 0 < n
      \<and> ((member_is_alive f1' \<and> member_is_dead f2') \<or> (member_is_dead f1' \<and> member_is_alive f2')))"
proof -
  have h1: "member_is_alive (Mon (sample_monster 1 3))"
    and h2: "member_is_alive (Mon (sample_monster 1 5))"
    by (simp_all add: member_is_alive_def is_alive_def sample_monster_def)
  let ?g = "\<lparr>tape = (\<lambda>_. 2), pos = 0\<rparr>"
  let ?a = "Mon (sample_monster 1 3)" and ?b = "Mon (sample_monster 1 5)"
  let ?R = "\<lambda>n f1' f2' g'. simple_combat ?a ?b ?g = Inr (f1', f2', g')
      \<and> 0 < n
      \<and> blows n ?a ?b ?g = (f1', f2', g')
      \<and> (\<forall>k<n. case blows k ?a ?b ?g of (a, b, h) \<Rightarrow> member_is_alive a \<and> member_is_alive b)
      \<and> ((member_is_alive f1' \<and> member_is_dead f2') \<or> (member_is_dead f1' \<and> member_is_alive f2'))
      \<and> (member_is_dead f2' \<longleftrightarrow> odd n)
      \<and> pos g' = pos ?g + n"
  have "\<exists>n f1' f2' g'. ?R n f1' f2' g'"
    by (rule simple_combat_alternates_until_one_is_dead [OF h1 h2, of ?g])
  then obtain n where "\<exists>f1' f2' g'. ?R n f1' f2' g'" ..
  then obtain f1' where "\<exists>f2' g'. ?R n f1' f2' g'" ..
  then obtain f2' where "\<exists>g'. ?R n f1' f2' g'" ..
  then obtain g' where r: "?R n f1' f2' g'" ..
  note conjunct1 [OF r] conjunct1 [OF conjunct2 [OF r]]
    conjunct1 [OF conjunct2 [OF conjunct2 [OF conjunct2 [OF conjunct2 [OF r]]]]]
  then have "\<exists>(n::nat) f1' f2' g'.
      simple_combat ?a ?b ?g = Inr (f1', f2', g')
      \<and> 0 < n
      \<and> ((member_is_alive f1' \<and> member_is_dead f2') \<or> (member_is_dead f1' \<and> member_is_alive f2'))"
    by blast
  with h1 h2 simple_combat_goblins show ?thesis
    by blast
qed

section \<open>Properties of the duel phase\<close>

declare duel_loop.simps [simp del]

lemma simple_combat_returns: "\<exists>a' b' g'. simple_combat a b g = Inr (a', b', g')"
proof (cases "member_is_alive a \<and> member_is_alive b")
  case True
  then obtain n where "simple_combat a b g = Inr (blows n a b g)"
    using simple_combat_is_blows [of a b g] by blast
  then show ?thesis
    by (cases "blows n a b g") auto
next
  case False
  then have "simple_combat a b g = Inr (a, b, g)"
    by (subst simple_combat.simps) auto
  then show ?thesis by blast
qed

lemma duel_pairs_short: "length xs \<le> 1 \<Longrightarrow> duel_pairs xs g = Inr (xs, g)"
  by (induction xs g rule: duel_pairs.induct) auto

lemma duel_loop_is_duel_pairs:
  "i \<le> length ms \<Longrightarrow>
   duel_loop i ms g =
     (case duel_pairs (drop i ms) g of
        Inl e \<Rightarrow> Inl e
      | Inr (r, g') \<Rightarrow> Inr (take i ms @ r, g'))"
proof (induction i ms g rule: duel_loop.induct)
  case (1 i ms g)
  show ?case
  proof (cases "int i < int (length ms) - 1")
    case True
    then have len: "i + 1 < length ms" by linarith
    then have dr: "drop i ms = ms ! i # ms ! (i + 1) # drop (i + 2) ms"
      by (metis Cons_nth_drop_Suc Suc_eq_plus1 add_2_eq_Suc' add_lessD1)
    obtain a' b' g' where sc: "simple_combat (ms ! i) (ms ! (i + 1)) g = Inr (a', b', g')"
      using simple_combat_returns by blast
    let ?ms = "ms[i := a', i + 1 := b']"
    have dr': "drop (i + 2) ?ms = drop (i + 2) ms"
      by simp
    have tk': "take (i + 2) ?ms = take i ms @ [a', b']"
    proof -
      have "take (i + 2) ?ms = take (i + 1) ?ms @ [?ms ! (i + 1)]"
        using len by (simp add: take_Suc_conv_app_nth)
      also have "take (i + 1) ?ms = take i ?ms @ [?ms ! i]"
        using len by (simp add: take_Suc_conv_app_nth)
      finally show ?thesis
        using len by simp
    qed
    have "duel_loop i ms g = duel_loop (i + 2) ?ms g'"
      using True sc by (subst duel_loop.simps) simp
    also have "\<dots> = (case duel_pairs (drop (i + 2) ?ms) g' of
        Inl e \<Rightarrow> Inl e
      | Inr (r, g'') \<Rightarrow> Inr (take (i + 2) ?ms @ r, g''))"
      using "1.IH" [OF True sc refl refl] len by simp
    also have "\<dots> = (case duel_pairs (drop i ms) g of
        Inl e \<Rightarrow> Inl e
      | Inr (r, g') \<Rightarrow> Inr (take i ms @ r, g'))"
      unfolding dr' tk' dr using sc by (auto split: sum.splits)
    finally show ?thesis .
  next
    case False
    then have stop: "duel_loop i ms g = Inr (ms, g)"
      by (subst duel_loop.simps) simp
    have "length (drop i ms) \<le> 1"
      using False by simp
    then have "duel_pairs (drop i ms) g = Inr (drop i ms, g)"
      by (rule duel_pairs_short)
    then show ?thesis
      using stop by simp
  qed
qed


lemma duel_pairs_result:
  "\<exists>ms' g'. duel_pairs ms g = Inr (ms', g')
     \<and> length ms' = length ms
     \<and> (\<forall>k. 2 * k + 1 < length ms \<longrightarrow>
           (\<exists>h h'. simple_combat (ms ! (2 * k)) (ms ! (2 * k + 1)) h
                      = Inr (ms' ! (2 * k), ms' ! (2 * k + 1), h')))
     \<and> (odd (length ms) \<longrightarrow> last ms' = last ms)"
proof (induction ms g rule: duel_pairs.induct)
  case (1 a b rest g)
  obtain a' b' g1 where sc: "simple_combat a b g = Inr (a', b', g1)"
    using simple_combat_returns by blast
  obtain rest' g2 where r: "duel_pairs rest g1 = Inr (rest', g2)"
      "length rest' = length rest"
      "\<forall>k. 2 * k + 1 < length rest \<longrightarrow>
           (\<exists>h h'. simple_combat (rest ! (2 * k)) (rest ! (2 * k + 1)) h
                      = Inr (rest' ! (2 * k), rest' ! (2 * k + 1), h'))"
      "odd (length rest) \<longrightarrow> last rest' = last rest"
    using "1.IH" [OF sc refl refl] by blast
  have res: "duel_pairs (a # b # rest) g = Inr (a' # b' # rest', g2)"
    using sc r(1) by simp
  have pairs: "\<exists>h h'. simple_combat ((a # b # rest) ! (2 * k)) ((a # b # rest) ! (2 * k + 1)) h
        = Inr ((a' # b' # rest') ! (2 * k), (a' # b' # rest') ! (2 * k + 1), h')"
    if "2 * k + 1 < length (a # b # rest)" for k
  proof (cases k)
    case 0
    then show ?thesis using sc by auto
  next
    case (Suc j)
    then have "2 * j + 1 < length rest" using that by simp
    then show ?thesis using r(3) Suc by simp
  qed
  have "last (a' # b' # rest') = last (a # b # rest)" if "odd (length (a # b # rest))"
  proof -
    from that have "odd (length rest)" by simp
    then have "rest \<noteq> []" "rest' \<noteq> []" "last rest' = last rest"
      using r(2,4) by auto
    then show ?thesis by simp
  qed
  then show ?case
    using res r(2) pairs by auto
next
  case "2_1"
  show ?case by simp
next
  case "2_2"
  show ?case by simp
qed

text \<open>
  Claim C9. For every population of odd size \<open>n\<close> and every state of the generator, the
  duel phase \<^verbatim>\<open>fight_duels_man_vs_man\<close> returns normally with a population of the same
  size, which is the population cut into consecutive pairs with a combat for each pair:
  for every \<open>k\<close> with \<open>2k + 1 < n\<close>, the members at the indices \<open>2k\<close> and \<open>2k + 1\<close> are
  what a combat of the two members that stood at these indices returns. None of these
  indices is the last, \<open>n - 1\<close>, and the member there is the one it was.
\<close>

theorem odd_population_leaves_last_member_out:
  assumes "odd (length (members (fighter_list a)))"
  shows "\<exists>ms' g'.
      fight_duels_man_vs_man a g = Inr (a\<lparr>fighter_list := (fighter_list a)\<lparr>members := ms'\<rparr>\<rparr>, g')
      \<and> duel_pairs (members (fighter_list a)) g = Inr (ms', g')
      \<and> length ms' = length (members (fighter_list a))
      \<and> (\<forall>k. 2 * k + 1 < length (members (fighter_list a)) \<longrightarrow>
            2 * k + 1 < length (members (fighter_list a)) - 1
            \<and> (\<exists>h h'. simple_combat (members (fighter_list a) ! (2 * k))
                          (members (fighter_list a) ! (2 * k + 1)) h
                        = Inr (ms' ! (2 * k), ms' ! (2 * k + 1), h')))
      \<and> ms' ! (length (members (fighter_list a)) - 1)
          = members (fighter_list a) ! (length (members (fighter_list a)) - 1)"
proof -
  let ?ms = "members (fighter_list a)"
  obtain ms' g' where r: "duel_pairs ?ms g = Inr (ms', g')"
      "length ms' = length ?ms"
      "\<forall>k. 2 * k + 1 < length ?ms \<longrightarrow>
           (\<exists>h h'. simple_combat (?ms ! (2 * k)) (?ms ! (2 * k + 1)) h
                      = Inr (ms' ! (2 * k), ms' ! (2 * k + 1), h'))"
      "odd (length ?ms) \<longrightarrow> last ms' = last ?ms"
    using duel_pairs_result [of ?ms g] by blast
  have "duel_loop 0 ?ms g = Inr (ms', g')"
    using duel_loop_is_duel_pairs [of 0 ?ms g] r(1) by simp
  then have run: "fight_duels_man_vs_man a g
      = Inr (a\<lparr>fighter_list := (fighter_list a)\<lparr>members := ms'\<rparr>\<rparr>, g')"
    by (simp add: fight_duels_man_vs_man_def)
  have ne: "?ms \<noteq> []" "ms' \<noteq> []"
    using assms r(2) by auto
  have "last ms' = last ?ms"
    using assms r(4) by simp
  then have lst: "ms' ! (length ?ms - 1) = ?ms ! (length ?ms - 1)"
    using ne r(2) by (simp add: last_conv_nth)
  have idx: "2 * k + 1 < length ?ms - 1" if "2 * k + 1 < length ?ms" for k
    using that assms by presburger
  show ?thesis
    using run r(1,2,3) lst idx by blast
qed


lemma fight_duels_sample_arena:
  "fight_duels_man_vs_man sample_arena \<lparr>tape = (\<lambda>_. 2), pos = 0\<rparr>
     = Inr (sample_arena\<lparr>fighter_list := (fighter_list sample_arena)\<lparr>members :=
              [Mon ((sample_monster 1 3)\<lparr>hit_points := 0\<rparr>),
               Mon ((sample_monster 1 5)\<lparr>hit_points := 2\<rparr>),
               Mon (sample_monster 1 4)]\<rparr>\<rparr>,
            \<lparr>tape = (\<lambda>_. 2), pos = 2\<rparr>)"
  by (simp add: fight_duels_man_vs_man_def duel_loop_is_duel_pairs sample_arena_def
      simple_combat_goblins)

theorem odd_population_leaves_last_member_out_witness:
  "odd (length (members (fighter_list sample_arena)))
   \<and> fight_duels_man_vs_man sample_arena \<lparr>tape = (\<lambda>_. 2), pos = 0\<rparr>
     = Inr (sample_arena\<lparr>fighter_list := (fighter_list sample_arena)\<lparr>members :=
              [Mon ((sample_monster 1 3)\<lparr>hit_points := 0\<rparr>),
               Mon ((sample_monster 1 5)\<lparr>hit_points := 2\<rparr>),
               Mon (sample_monster 1 4)]\<rparr>\<rparr>,
            \<lparr>tape = (\<lambda>_. 2), pos = 2\<rparr>)
   \<and> (\<exists>ms' g'.
        fight_duels_man_vs_man sample_arena \<lparr>tape = (\<lambda>_. 2), pos = 0\<rparr>
          = Inr (sample_arena\<lparr>fighter_list := (fighter_list sample_arena)\<lparr>members := ms'\<rparr>\<rparr>, g')
        \<and> length ms' = length (members (fighter_list sample_arena))
        \<and> ms' ! (length (members (fighter_list sample_arena)) - 1)
            = members (fighter_list sample_arena) ! (length (members (fighter_list sample_arena)) - 1))"
proof -
  have h: "odd (length (members (fighter_list sample_arena)))"
    by (simp add: sample_arena_def)
  have "\<exists>ms' g'.
        fight_duels_man_vs_man sample_arena \<lparr>tape = (\<lambda>_. 2), pos = 0\<rparr>
          = Inr (sample_arena\<lparr>fighter_list := (fighter_list sample_arena)\<lparr>members := ms'\<rparr>\<rparr>, g')
        \<and> length ms' = length (members (fighter_list sample_arena))
        \<and> ms' ! (length (members (fighter_list sample_arena)) - 1)
            = members (fighter_list sample_arena) ! (length (members (fighter_list sample_arena)) - 1)"
    using odd_population_leaves_last_member_out [OF h, of "\<lparr>tape = (\<lambda>_. 2), pos = 0\<rparr>"]
    by blast
  with h fight_duels_sample_arena show ?thesis
    by (intro conjI)
qed

section \<open>Properties of the fight cycle\<close>

declare recruit_new_fighters.simps [simp del]

lemma roll_returns:
  assumes "1 \<le> sides d"
  shows "\<exists>v. roll d g = Inr (v, g\<lparr>pos := pos g + nat (number d)\<rparr>) \<and> 0 \<le> v"
proof -
  obtain t where "roll_sum (nat (number d)) (sides d) g = Inr (t, g\<lparr>pos := pos g + nat (number d)\<rparr>)"
    using roll_sum_ok [OF assms] by blast
  from roll_value [OF this] show ?thesis by simp
qed

lemma roll_hit_points_returns:
  assumes "1 \<le> sides (hit_dice m)"
  shows "\<exists>v. roll_hit_points m g
      = Inr (m\<lparr>hit_points := v, max_hit_points := v\<rparr>, g\<lparr>pos := pos g + nat (number (hit_dice m))\<rparr>)"
  using roll_returns [OF assms, of g] by (auto simp: roll_hit_points_def)

lemma Monster_returns:
  assumes "1 \<le> sides d"
  shows "\<exists>m g1. Monster r ac mv (Some d) (Some atk) g = Inr (m, g1)
     \<and> hit_dice m = d \<and> hit_points m = max_hit_points m \<and> armor_class m = ac"
proof -
  let ?m0 = "\<lparr>race = r, armor_class = ac, move_inches = mv, hit_dice = d, attack = atk,
            alignment = NEUTRAL, equivalent_hit_dice = number d, hit_points = 0,
            max_hit_points = 0, kill_tally = 0, times_meleed = 0\<rparr>"
  have "1 \<le> sides (hit_dice ?m0)"
    using assms by simp
  from roll_hit_points_returns [OF this, of g] obtain v where
    "roll_hit_points ?m0 g
      = Inr (?m0\<lparr>hit_points := v, max_hit_points := v\<rparr>, g\<lparr>pos := pos g + nat (number (hit_dice ?m0))\<rparr>)"
    by blast
  then show ?thesis
    by (simp add: Monster_def Let_def)
qed

lemma roll_abilities_returns:
  assumes "1 \<le> sides d"
  shows "\<exists>c'. roll_abilities d abilities c g = Inr (c', g\<lparr>pos := pos g + length abilities * nat (number d)\<rparr>)
     \<and> hit_dice c' = hit_dice c \<and> name c' = name c"
proof (induction abilities arbitrary: c g)
  case Nil
  show ?case by simp
next
  case (Cons a rest)
  obtain v where v: "roll d g = Inr (v, g\<lparr>pos := pos g + nat (number d)\<rparr>)"
    using roll_returns [OF assms] by blast
  show ?case
    using Cons.IH [of "c\<lparr>ability_scores := (ability_scores c)(a \<mapsto> v),
               ability_score_damage := (ability_score_damage c)(a \<mapsto> 0)\<rparr>"
        "g\<lparr>pos := pos g + nat (number d)\<rparr>"] v
    by (auto simp: algebra_simps)
qed

lemma Character_returns:
  "\<exists>c g'. Character nm lvl ct g = Inr (c, g') \<and> hit_points c = max_hit_points c"
proof -
  obtain m g1 where m: "Monster (ClassType_value ct @ '' '' @ str_int lvl) BASE_ARMOR_CLASS BASE_MOVEMENT
             (Some (Dice lvl 6 1 0)) (Some (Attack 1 ''1d8'' 0)) g = Inr (m, g1)"
      "hit_dice m = Dice lvl 6 1 0"
  proof -
    have "1 \<le> sides (Dice lvl 6 1 0)"
      by (simp add: Dice_def)
    from Monster_returns [OF this] show ?thesis
      using that by blast
  qed
  let ?c0 = "monster.extend m
                     (character.fields nm BASE_AGE ct lvl Map.empty Map.empty None None None 0 0)"
  have hd0: "hit_dice ?c0 = Dice lvl 6 1 0"
    using m(2) by (simp add: monster.defs)
  obtain c1 g2 where c1: "roll_ability_scores ?c0 0 g1 = Inr (c1, g2)" "hit_dice c1 = hit_dice ?c0"
    using roll_abilities_returns [of "Dice 3 6 1 0" Ability_members ?c0 g1]
    by (auto simp: roll_ability_scores_def list_index_def ABILITY_DICE_def Dice_def)
  have "1 \<le> sides (hit_dice c1)"
    using c1(2) hd0 by (simp add: Dice_def)
  then obtain v where "roll_hit_points c1 g2
      = Inr (c1\<lparr>hit_points := v, max_hit_points := v\<rparr>, g2\<lparr>pos := pos g2 + nat (number (hit_dice c1))\<rparr>)"
    using roll_hit_points_returns by blast
  then show ?thesis
    using m(1) c1(1) by (simp add: Character_def)
qed


lemma random_normal_returns:
  "\<exists>al. random_normal g = Inr (al, g\<lparr>pos := Suc (pos g)\<rparr>)"
  by (simp add: random_normal_def randint_value)

lemma new_fighter_returns:
  "\<exists>f g'. new_fighter a lvl g = Inr (f, g') \<and> hit_points f = max_hit_points f"
proof -
  obtain c g1 where c: "Character (''Fighter_'' @ str_nat (self_id a)) lvl FIGHTER g = Inr (c, g1)"
      "hit_points c = max_hit_points c"
    using Character_returns by blast
  obtain al where al: "random_normal g1 = Inr (al, g1\<lparr>pos := Suc (pos g1)\<rparr>)"
    using random_normal_returns by blast
  show ?thesis
    using c al
    by (simp add: new_fighter_def set_alignment_def set_armor_def set_weapon_def
        update_armor_class_def Let_def split: option.splits)
qed

text \<open>The invariant of the data model: current hit points never exceed the maximum.\<close>

lemma recruit_new_fighters_returns:
  "\<forall>m\<in>set (members (fighter_list a)). member_hit_points m \<le> member_max_hit_points m \<Longrightarrow>
   \<exists>p g'. recruit_new_fighters a g = Inr (a\<lparr>fighter_list := p\<rparr>, g')
     \<and> (\<forall>m\<in>set (members p). member_hit_points m \<le> member_max_hit_points m)"
proof (induction a g rule: recruit_new_fighters.induct)
  case (1 a g)
  show ?case
  proof (cases "get_size (fighter_list a) < num_fighters a")
    case False
    then have "recruit_new_fighters a g = Inr (a\<lparr>fighter_list := fighter_list a\<rparr>, g)"
      by (subst recruit_new_fighters.simps) simp
    with "1.prems" show ?thesis by blast
  next
    case True
    obtain f g1 where f: "new_fighter a (start_level a) g = Inr (f, g1)"
        "hit_points f = max_hit_points f"
      using new_fighter_returns by blast
    let ?a = "a\<lparr>fighter_list := add_member (fighter_list a) (Chr f)\<rparr>"
    have "\<forall>m\<in>set (members (fighter_list ?a)). member_hit_points m \<le> member_max_hit_points m"
      using "1.prems" f(2)
      by (auto simp: add_member_def member_hit_points_def member_max_hit_points_def)
    from "1.IH" [OF True f(1) refl this]
    obtain p g' where p: "recruit_new_fighters ?a g1 = Inr (?a\<lparr>fighter_list := p\<rparr>, g')"
        "\<forall>m\<in>set (members p). member_hit_points m \<le> member_max_hit_points m"
      by blast
    have "recruit_new_fighters a g = recruit_new_fighters ?a g1"
      using True f(1) by (subst recruit_new_fighters.simps) simp
    then have "recruit_new_fighters a g = Inr (a\<lparr>fighter_list := p\<rparr>, g')"
      using p(1) by simp
    with p(2) show ?thesis by blast
  qed
qed

lemma shuffle_from_mset:
  "i < length xs \<Longrightarrow> mset (fst (shuffle_from i xs g)) = mset xs"
proof (induction i arbitrary: xs g)
  case 0
  show ?case by simp
next
  case (Suc i)
  let ?j = "tape g (pos g) mod (Suc i + 1)"
  have "?j < Suc i + 1"
    by (rule mod_less_divisor) simp
  then have j: "?j < length xs"
    using Suc.prems by linarith
  have "mset (xs[Suc i := xs ! ?j, ?j := xs ! Suc i]) = mset xs"
    using mset_swap [OF j Suc.prems] by simp
  moreover have "i < length (xs[Suc i := xs ! ?j, ?j := xs ! Suc i])"
    using Suc.prems by simp
  ultimately show ?case
    using Suc.IH [of "xs[Suc i := xs ! ?j, ?j := xs ! Suc i]" "g\<lparr>pos := Suc (pos g)\<rparr>"]
    by (simp add: randbelow_def)
qed

lemma shuffle_mset: "mset (fst (shuffle xs g)) = mset xs"
proof (cases xs)
  case Nil
  then show ?thesis by (simp add: shuffle_def)
next
  case (Cons x rest)
  then have "length xs - 1 < length xs" by simp
  then show ?thesis
    unfolding shuffle_def by (rule shuffle_from_mset)
qed


lemma blows_wear:
  "blows n a b g = (a', b', g') \<Longrightarrow>
   member_max_hit_points a' = member_max_hit_points a \<and> member_hit_points a' \<le> member_hit_points a
   \<and> member_max_hit_points b' = member_max_hit_points b \<and> member_hit_points b' \<le> member_hit_points b"
proof (induction n arbitrary: a' b' g')
  case 0
  then show ?case by simp
next
  case (Suc n)
  obtain x y h where xy: "blows n a b g = (x, y, h)"
    by (cases "blows n a b g") auto
  have ih: "member_max_hit_points x = member_max_hit_points a \<and> member_hit_points x \<le> member_hit_points a
   \<and> member_max_hit_points y = member_max_hit_points b \<and> member_hit_points y \<le> member_hit_points b"
    using Suc.IH [OF xy] .
  show ?case
  proof (cases "even n")
    case True
    with Suc.prems xy have "a' = x" "b' = snd (member_take_damage y (1 + int (tape h (pos h) mod 8)))"
      by (simp_all add: roll_1d8)
    with ih show ?thesis
      by (simp add: member_take_damage_hit_points member_take_damage_max_hit_points)
  next
    case False
    with Suc.prems xy have "b' = y" "a' = snd (member_take_damage x (1 + int (tape h (pos h) mod 8)))"
      by (simp_all add: roll_1d8)
    with ih show ?thesis
      by (simp add: member_take_damage_hit_points member_take_damage_max_hit_points)
  qed
qed

lemma simple_combat_wear:
  assumes "simple_combat a b g = Inr (a', b', g')"
  shows "member_max_hit_points a' = member_max_hit_points a \<and> member_hit_points a' \<le> member_hit_points a
   \<and> member_max_hit_points b' = member_max_hit_points b \<and> member_hit_points b' \<le> member_hit_points b"
proof (cases "member_is_alive a \<and> member_is_alive b")
  case True
  then obtain n where "simple_combat a b g = Inr (blows n a b g)"
    using simple_combat_is_blows [of a b g] by blast
  with assms have "blows n a b g = (a', b', g')" by simp
  then show ?thesis by (rule blows_wear)
next
  case False
  then have "simple_combat a b g = Inr (a, b, g)"
    by (subst simple_combat.simps) auto
  with assms show ?thesis by simp
qed

lemma duel_pairs_keeps_invariant:
  "duel_pairs ms g = Inr (ms', g') \<Longrightarrow>
   \<forall>m\<in>set ms. member_hit_points m \<le> member_max_hit_points m \<Longrightarrow>
   \<forall>m\<in>set ms'. member_hit_points m \<le> member_max_hit_points m"
proof (induction ms g arbitrary: ms' g' rule: duel_pairs.induct)
  case (1 a b rest g)
  obtain a' b' g1 where sc: "simple_combat a b g = Inr (a', b', g1)"
    using simple_combat_returns by blast
  obtain rest' g2 where r: "duel_pairs rest g1 = Inr (rest', g2)"
    using duel_pairs_result [of rest g1] by blast
  have ms': "ms' = a' # b' # rest'"
    using "1.prems"(1) sc r by simp
  have "\<forall>m\<in>set rest'. member_hit_points m \<le> member_max_hit_points m"
    using "1.IH" [OF sc refl refl r] "1.prems"(2) by simp
  moreover have "member_hit_points a' \<le> member_max_hit_points a'"
      "member_hit_points b' \<le> member_max_hit_points b'"
    using simple_combat_wear [OF sc] "1.prems"(2) by auto
  ultimately show ?case
    unfolding ms' by simp
next
  case "2_1"
  then show ?case by simp
next
  case "2_2"
  then show ?case by simp
qed

lemma fight_duels_returns:
  assumes "\<forall>m\<in>set (members (fighter_list a)). member_hit_points m \<le> member_max_hit_points m"
  shows "\<exists>p g'. fight_duels a g = Inr (a\<lparr>fighter_list := p\<rparr>, g')
     \<and> (\<forall>m\<in>set (members p). member_hit_points m \<le> member_max_hit_points m)"
proof (cases "fight_man_vs_monster a")
  case True
  then have "fight_duels a g = Inr (a\<lparr>fighter_list := fighter_list a\<rparr>, g)"
    by (simp add: fight_duels_def fight_duels_man_vs_monster_def)
  with assms show ?thesis by blast
next
  case False
  obtain ms' g' where r: "duel_pairs (members (fighter_list a)) g = Inr (ms', g')"
    using duel_pairs_result [of "members (fighter_list a)" g] by blast
  then have "duel_loop 0 (members (fighter_list a)) g = Inr (ms', g')"
    using duel_loop_is_duel_pairs [of 0 "members (fighter_list a)" g] by simp
  then have "fight_duels a g = Inr (a\<lparr>fighter_list := (fighter_list a)\<lparr>members := ms'\<rparr>\<rparr>, g')"
    using False by (simp add: fight_duels_def fight_duels_man_vs_man_def)
  moreover have "\<forall>m\<in>set (members ((fighter_list a)\<lparr>members := ms'\<rparr>)).
      member_hit_points m \<le> member_max_hit_points m"
    using duel_pairs_keeps_invariant [OF r assms] by simp
  ultimately show ?thesis by blast
qed

lemma cull_and_heal:
  assumes "\<forall>m\<in>set (members p). member_hit_points m \<le> member_max_hit_points m"
  shows "\<forall>m\<in>set (members (heal_all (clear_fallen (snd (bring_out_your_dead p))))).
      member_is_alive m \<and> member_hit_points m = member_max_hit_points m
      \<and> 1 \<le> member_max_hit_points m"
proof
  fix m
  assume "m \<in> set (members (heal_all (clear_fallen (snd (bring_out_your_dead p)))))"
  then obtain x where x: "x \<in> set (members p)" "member_is_alive x" "m = member_heal_fully x"
    by (auto simp: heal_all_def clear_fallen_def bring_out_your_dead_def get_living_members_def
        Let_def)
  have "0 < member_hit_points x" "member_hit_points x \<le> member_max_hit_points x"
    using x(1,2) assms by (simp_all add: member_is_alive_hit_points)
  moreover have "member_hit_points m = member_max_hit_points x"
      "member_max_hit_points m = member_max_hit_points x"
    unfolding x(3)
    by (simp_all add: member_heal_fully_def member_hit_points_def member_max_hit_points_def
        heal_fully_def split: combatant.splits)
  ultimately show "member_is_alive m \<and> member_hit_points m = member_max_hit_points m
      \<and> 1 \<le> member_max_hit_points m"
    by (simp add: member_is_alive_hit_points)
qed

lemma run_one_cycle_healed:
  assumes "\<forall>m\<in>set (members (fighter_list a)). member_hit_points m \<le> member_max_hit_points m"
  shows "\<exists>a' g'. run_one_cycle a g = Inr (a', g')
     \<and> (\<forall>m\<in>set (members (fighter_list a')).
           member_is_alive m \<and> member_hit_points m = member_max_hit_points m
           \<and> 1 \<le> member_max_hit_points m)"
proof -
  obtain p1 g1 where s1: "recruit_new_fighters a g = Inr (a\<lparr>fighter_list := p1\<rparr>, g1)"
      "\<forall>m\<in>set (members p1). member_hit_points m \<le> member_max_hit_points m"
    using recruit_new_fighters_returns [OF assms] by blast
  obtain p2 g2 where s2: "shuffle_members p1 g1 = (p2, g2)"
    by (cases "shuffle_members p1 g1") auto
  then have "members p2 = fst (shuffle (members p1) g1)"
    by (auto simp: shuffle_members_def split: prod.splits)
  then have "set (members p2) = set (members p1)"
    using shuffle_mset [of "members p1" g1] by (metis mset_eq_setD)
  with s1(2) have inv2: "\<forall>m\<in>set (members (fighter_list (a\<lparr>fighter_list := p2\<rparr>))).
      member_hit_points m \<le> member_max_hit_points m"
    by simp
  obtain p3 g3 where s3: "fight_duels (a\<lparr>fighter_list := p2\<rparr>) g2 = Inr (a\<lparr>fighter_list := p3\<rparr>, g3)"
      "\<forall>m\<in>set (members p3). member_hit_points m \<le> member_max_hit_points m"
    using fight_duels_returns [OF inv2, of g2] by auto
  have "run_one_cycle a g =
      Inr (a\<lparr>fighter_list := heal_all (clear_fallen (snd (bring_out_your_dead p3)))\<rparr>, g3)"
    using s1(1) s2 s3(1) by (simp add: run_one_cycle_def Let_def)
  then show ?thesis
    using cull_and_heal [OF s3(2)] by simp
qed

text \<open>
  Claim C10 as stated fails. Nothing keeps the hit points of a member at or below its
  maximum: \<^verbatim>\<open>Monster("Goblin", 6, 12, Dice(0, 6))\<close> is built with 0 hit points of 0, and
  \<^verbatim>\<open>take_damage(-5)\<close> leaves it with 5 of 0. Added to the population of an arena of one
  fighter, it passes the cull of the next cycle alive, and healing then sets its hit
  points to its maximum, 0: the cycle leaves a dead member with a maximum below 1.
\<close>

theorem run_one_cycle_overfull_member_counterexample:
  "Monster ''Goblin'' 6 12 (Some (Dice 0 6 1 0)) None \<lparr>tape = (\<lambda>_. 2), pos = 0\<rparr>
     = Inr (sample_monster 0 0, \<lparr>tape = (\<lambda>_. 2), pos = 0\<rparr>)
   \<and> take_damage (sample_monster 0 0) (- 5) = (True, (sample_monster 0 0)\<lparr>hit_points := 5\<rparr>)
   \<and> run_one_cycle
        ((Arena 0)\<lparr>num_fighters := 1,
           fighter_list := add_member Party (Mon ((sample_monster 0 0)\<lparr>hit_points := 5\<rparr>))\<rparr>)
        \<lparr>tape = (\<lambda>_. 2), pos = 0\<rparr>
     = Inr ((Arena 0)\<lparr>num_fighters := 1,
              fighter_list := \<lparr>members = [Mon (sample_monster 0 0)]\<rparr>\<rparr>,
            \<lparr>tape = (\<lambda>_. 2), pos = 0\<rparr>)
   \<and> \<not> member_is_alive (Mon (sample_monster 0 0))
   \<and> member_hit_points (Mon (sample_monster 0 0)) = 0
   \<and> member_max_hit_points (Mon (sample_monster 0 0)) = 0"
proof -
  let ?p = "\<lparr>members = [Mon ((sample_monster 0 0)\<lparr>hit_points := 5\<rparr>)]\<rparr>"
  let ?a = "\<lparr>num_years = 50, fights_per_year = 12, num_fighters = 1, start_level = 1,
      fighter_party_size = 1, fight_man_vs_monster = False, report_year_end = False,
      base_armor_type = Some PLATE, fighter_list = ?p, self_id = 0\<rparr>"
  let ?g = "\<lparr>tape = (\<lambda>_. 2), pos = 0\<rparr>"
  have built: "Monster ''Goblin'' 6 12 (Some (Dice 0 6 1 0)) None ?g = Inr (sample_monster 0 0, ?g)"
    by (simp add: Monster_def roll_hit_points_def roll_def sample_monster_def Attack_def Dice_def
        Let_def)
  have overfull: "take_damage (sample_monster 0 0) (- 5)
      = (True, (sample_monster 0 0)\<lparr>hit_points := 5\<rparr>)"
    by (simp add: take_damage_def sample_monster_def Let_def)
  have a: "(Arena 0)\<lparr>num_fighters := 1,
           fighter_list := add_member Party (Mon ((sample_monster 0 0)\<lparr>hit_points := 5\<rparr>))\<rparr> = ?a"
    by (simp add: Arena_def add_member_def Party_def)
  have s1: "recruit_new_fighters ?a ?g = Inr (?a, ?g)"
    by (subst recruit_new_fighters.simps) (simp add: get_size_def)
  have s2: "shuffle_members ?p ?g = (?p, ?g)"
    by (simp add: shuffle_members_def shuffle_def)
  have s3: "fight_duels ?a ?g = Inr (?a, ?g)"
    by (simp add: fight_duels_def fight_duels_man_vs_man_def duel_loop_is_duel_pairs)
  have s4: "heal_all (clear_fallen (snd (bring_out_your_dead ?p)))
      = \<lparr>members = [Mon (sample_monster 0 0)]\<rparr>"
    by (simp add: heal_all_def clear_fallen_def bring_out_your_dead_def get_living_members_def
        member_is_alive_def is_alive_def member_heal_fully_def heal_fully_def sample_monster_def
        Let_def)
  have cycle: "run_one_cycle
        ((Arena 0)\<lparr>num_fighters := 1,
           fighter_list := add_member Party (Mon ((sample_monster 0 0)\<lparr>hit_points := 5\<rparr>))\<rparr>) ?g
     = Inr ((Arena 0)\<lparr>num_fighters := 1,
              fighter_list := \<lparr>members = [Mon (sample_monster 0 0)]\<rparr>\<rparr>, ?g)"
    unfolding a
    by (simp add: run_one_cycle_def s1 s2 s3 s4 Let_def Arena_def)
  have dead: "\<not> member_is_alive (Mon (sample_monster 0 0))"
      "member_hit_points (Mon (sample_monster 0 0)) = 0"
      "member_max_hit_points (Mon (sample_monster 0 0)) = 0"
    by (simp_all add: member_is_alive_def is_alive_def member_max_hit_points_def
        member_hit_points_def sample_monster_def)
  from built overfull cycle dead show ?thesis
    by (intro conjI)
qed

text \<open>
  Claim C10, amended. Take a population in which no member has more hit points than
  its maximum; the empty population an arena starts with is one, and so is every
  population that recruiting and fighting produce. Then for every configuration and
  every state of the generator a fight cycle (recruit, shuffle, duel, cull twice, heal)
  returns normally, and every member of the population it leaves is alive, has its hit
  points equal to its maximum, and has a maximum of at least 1. The population it
  leaves has no member above its maximum again, so the same holds after every cycle of
  a run.
\<close>

theorem run_one_cycle_leaves_living_healed_members:
  assumes "\<forall>m\<in>set (members (fighter_list a)). member_hit_points m \<le> member_max_hit_points m"
  shows "\<exists>a' g'. run_one_cycle a g = Inr (a', g')
     \<and> (\<forall>m\<in>set (members (fighter_list a')).
           member_is_alive m \<and> member_hit_points m = member_max_hit_points m
           \<and> 1 \<le> member_max_hit_points m)"
  using assms by (rule run_one_cycle_healed)


text \<open>
  The same after any number of cycles in a row, in particular from the empty population
  of a new arena.
\<close>

lemma run_cycles_leaves_living_healed_members:
  assumes "\<forall>m\<in>set (members (fighter_list a)). member_hit_points m \<le> member_max_hit_points m"
    and "0 < n"
  shows "\<exists>a' g'. run_cycles n a g = Inr (a', g')
     \<and> (\<forall>m\<in>set (members (fighter_list a')).
           member_is_alive m \<and> member_hit_points m = member_max_hit_points m
           \<and> 1 \<le> member_max_hit_points m)"
  using assms
proof (induction n arbitrary: a g)
  case 0
  then show ?case by simp
next
  case (Suc n)
  obtain a1 g1 where c: "run_one_cycle a g = Inr (a1, g1)"
      "\<forall>m\<in>set (members (fighter_list a1)).
           member_is_alive m \<and> member_hit_points m = member_max_hit_points m
           \<and> 1 \<le> member_max_hit_points m"
    using run_one_cycle_healed [OF Suc.prems(1)] by blast
  show ?case
  proof (cases n)
    case 0
    with c show ?thesis by simp
  next
    case (Suc k)
    have "\<forall>m\<in>set (members (fighter_list a1)). member_hit_points m \<le> member_max_hit_points m"
      using c(2) by simp
    from Suc.IH [OF this, of g1] Suc c(1) show ?thesis by simp
  qed
qed

lemma new_arena_cycles:
  assumes "0 < n"
  shows "\<exists>a' g'. run_cycles n (Arena i) g = Inr (a', g')
     \<and> (\<forall>m\<in>set (members (fighter_list a')).
           member_is_alive m \<and> member_hit_points m = member_max_hit_points m
           \<and> 1 \<le> member_max_hit_points m)"
  by (rule run_cycles_leaves_living_healed_members [OF _ assms]) (simp add: Arena_def Party_def)

text \<open>
  One cycle of the sample arena with a target size of 3 on a generator whose every raw
  draw is 2: nobody is recruited, the shuffle exchanges the first two goblins, the
  goblin of 5 hit points strikes the goblin of 3 dead, the third sits out, and the two
  survivors are left at full hit points.
\<close>

lemma run_one_cycle_sample_arena:
  "run_one_cycle (sample_arena\<lparr>num_fighters := 3\<rparr>) \<lparr>tape = (\<lambda>_. 2), pos = 0\<rparr>
     = Inr (sample_arena\<lparr>num_fighters := 3,
              fighter_list := \<lparr>members = [Mon (sample_monster 1 5), Mon (sample_monster 1 4)]\<rparr>\<rparr>,
            \<lparr>tape = (\<lambda>_. 2), pos = 3\<rparr>)"
proof -
  let ?a = "sample_arena\<lparr>num_fighters := 3\<rparr>"
  let ?g = "\<lparr>tape = (\<lambda>_. 2), pos = 0\<rparr>"
  have s1: "recruit_new_fighters ?a ?g = Inr (?a, ?g)"
    by (subst recruit_new_fighters.simps) (simp add: sample_arena_def get_size_def)
  have s2: "shuffle_members (fighter_list ?a) ?g
      = (\<lparr>members = [Mon (sample_monster 1 5), Mon (sample_monster 1 3), Mon (sample_monster 1 4)]\<rparr>,
         \<lparr>tape = (\<lambda>_. 2), pos = 2\<rparr>)"
    by (simp add: shuffle_members_def shuffle_def sample_arena_def randbelow_def numeral_2_eq_2)
  have sc: "simple_combat (Mon (sample_monster 1 5)) (Mon (sample_monster 1 3)) \<lparr>tape = (\<lambda>_. 2), pos = 2\<rparr>
      = Inr (Mon (sample_monster 1 5), Mon ((sample_monster 1 3)\<lparr>hit_points := 0\<rparr>),
             \<lparr>tape = (\<lambda>_. 2), pos = 3\<rparr>)"
    by (subst simple_combat.simps)
       (simp add: roll_1d8 member_is_alive_def is_alive_def member_take_damage_def
          take_damage_def sample_monster_def Let_def)
  have s3: "fight_duels
        (?a\<lparr>fighter_list :=
           \<lparr>members = [Mon (sample_monster 1 5), Mon (sample_monster 1 3), Mon (sample_monster 1 4)]\<rparr>\<rparr>)
        \<lparr>tape = (\<lambda>_. 2), pos = 2\<rparr>
      = Inr (?a\<lparr>fighter_list :=
           \<lparr>members = [Mon (sample_monster 1 5), Mon ((sample_monster 1 3)\<lparr>hit_points := 0\<rparr>),
                       Mon (sample_monster 1 4)]\<rparr>\<rparr>,
          \<lparr>tape = (\<lambda>_. 2), pos = 3\<rparr>)"
    by (simp add: fight_duels_def fight_duels_man_vs_man_def duel_loop_is_duel_pairs
        sample_arena_def Arena_def sc)
  have s4: "heal_all (clear_fallen (snd (bring_out_your_dead
        \<lparr>members = [Mon (sample_monster 1 5), Mon ((sample_monster 1 3)\<lparr>hit_points := 0\<rparr>),
                       Mon (sample_monster 1 4)]\<rparr>)))
      = \<lparr>members = [Mon (sample_monster 1 5), Mon (sample_monster 1 4)]\<rparr>"
    by (simp add: heal_all_def clear_fallen_def bring_out_your_dead_def get_living_members_def
        member_is_alive_def is_alive_def member_heal_fully_def heal_fully_def sample_monster_def
        Let_def)
  show ?thesis
    by (simp add: run_one_cycle_def s1 s2 [simplified] s3 [simplified] s4 Let_def)
qed

theorem run_one_cycle_leaves_living_healed_members_witness:
  "list_all (\<lambda>m. member_hit_points m \<le> member_max_hit_points m)
     (members (fighter_list (sample_arena\<lparr>num_fighters := 3\<rparr>)))
   \<and> run_one_cycle (sample_arena\<lparr>num_fighters := 3\<rparr>) \<lparr>tape = (\<lambda>_. 2), pos = 0\<rparr>
     = Inr (sample_arena\<lparr>num_fighters := 3,
              fighter_list := \<lparr>members = [Mon (sample_monster 1 5), Mon (sample_monster 1 4)]\<rparr>\<rparr>,
            \<lparr>tape = (\<lambda>_. 2), pos = 3\<rparr>)
   \<and> (\<exists>a' g'. run_one_cycle (sample_arena\<lparr>num_fighters := 3\<rparr>) \<lparr>tape = (\<lambda>_. 2), pos = 0\<rparr> = Inr (a', g')
        \<and> (\<forall>m\<in>set (members (fighter_list a')).
           member_is_alive m \<and> member_hit_points m = member_max_hit_points m
           \<and> 1 \<le> member_max_hit_points m))"
proof -
  have h: "\<forall>m\<in>set (members (fighter_list (sample_arena\<lparr>num_fighters := 3\<rparr>))).
      member_hit_points m \<le> member_max_hit_points m"
    by (simp add: sample_arena_def member_hit_points_def member_max_hit_points_def
        sample_monster_def)
  then have "list_all (\<lambda>m. member_hit_points m \<le> member_max_hit_points m)
     (members (fighter_list (sample_arena\<lparr>num_fighters := 3\<rparr>)))"
    by (simp add: list_all_iff)
  with run_one_cycle_sample_arena
    run_one_cycle_leaves_living_healed_members [OF h, of "\<lparr>tape = (\<lambda>_. 2), pos = 0\<rparr>"]
  show ?thesis
    by (intro conjI)
qed

section \<open>Properties of the parser\<close>

lemma digit_not_space: "is_digit c \<Longrightarrow> \<not> is_space c"
  by (auto simp: is_digit_def is_space_def)

lemma takeWhile_digits:
  assumes "digits xs" and "ys = [] \<or> \<not> is_digit (hd ys)"
  shows "takeWhile is_digit (xs @ ys) = xs" and "dropWhile is_digit (xs @ ys) = ys"
proof -
  have all: "\<forall>x\<in>set xs. is_digit x"
    using assms(1) by (simp add: digits_def list_all_iff)
  have tk: "takeWhile is_digit ys = []" and dr: "dropWhile is_digit ys = ys"
    using assms(2) by (cases ys; simp)+
  show "takeWhile is_digit (xs @ ys) = xs"
    using all tk by (simp add: takeWhile_append2)
  show "dropWhile is_digit (xs @ ys) = ys"
    using all dr by (simp add: dropWhile_append2)
qed

lemma opt_part_text_head:
  assumes "opt_part_ok syms p" and "\<forall>c\<in>set syms. \<not> is_digit c"
  shows "opt_part_text p = [] \<or> \<not> is_digit (hd (opt_part_text p))"
  using assms by (auto simp: opt_part_ok_def opt_part_text_def split: option.splits)

lemma opt_group_part:
  assumes "opt_part_ok syms p" and "ys = [] \<or> (\<not> is_digit (hd ys) \<and> hd ys \<notin> set syms)"
  shows "opt_group syms (opt_part_text p @ ys) = (p, ys)"
proof (cases p)
  case None
  then show ?thesis
    using assms(2) by (cases ys) (auto simp: opt_group_def opt_part_text_def)
next
  case (Some cv)
  obtain c v where cv: "cv = (c, v)" by (cases cv)
  have ok: "c \<in> set syms" "v \<noteq> []" "digits v"
    using assms(1) Some cv by (auto simp: opt_part_ok_def)
  have "ys = [] \<or> \<not> is_digit (hd ys)"
    using assms(2) by auto
  from takeWhile_digits [OF ok(3) this] ok(1,2) show ?thesis
    by (simp add: opt_group_def opt_part_text_def Some cv)
qed


lemma letter_d_facts:
  assumes "d = CHR ''d'' \<or> d = CHR ''D''"
  shows "\<not> is_digit d" and "\<not> is_space d"
  using assms by (auto simp: is_digit_def is_space_def)

lemma symbol_facts:
  "\<forall>c\<in>set ''*/''. \<not> is_digit c" "\<forall>c\<in>set ''+-''. \<not> is_digit c"
  "\<forall>c\<in>set ''+-''. c \<notin> set ''*/''"
  by (simp_all add: is_digit_def)

lemma re_match_well_formed:
  assumes wf: "well_formed cnt sd m a" and d: "d = CHR ''d'' \<or> d = CHR ''D''"
  shows "re_match (dice_text cnt d sd m a) = Some (cnt, sd, m, a, [])"
proof -
  let ?om = "opt_part_text m" and ?oa = "opt_part_text a"
  have cnt: "digits cnt" and sd: "digits sd" "sd \<noteq> []"
    and m: "opt_part_ok ''*/'' m" and a: "opt_part_ok ''+-'' a"
    using wf by (simp_all add: well_formed_def)
  have hd_oa: "?oa = [] \<or> (\<not> is_digit (hd ?oa) \<and> hd ?oa \<notin> set ''*/'')"
    using a symbol_facts(2,3) by (auto simp: opt_part_ok_def opt_part_text_def split: option.splits)
  have hd_om: "?om = [] \<or> \<not> is_digit (hd ?om)"
    using opt_part_text_head [OF m symbol_facts(1)] .
  have hd_rest: "?om @ ?oa = [] \<or> \<not> is_digit (hd (?om @ ?oa))"
    using hd_om hd_oa by (cases ?om) auto
  have s1: "takeWhile is_digit (dice_text cnt d sd m a) = cnt"
      "dropWhile is_digit (dice_text cnt d sd m a) = d # sd @ ?om @ ?oa"
    unfolding dice_text_def
    using takeWhile_digits [OF cnt, of "d # sd @ ?om @ ?oa"] letter_d_facts(1) [OF d] by simp_all
  have s2: "takeWhile is_digit (sd @ ?om @ ?oa) = sd" "dropWhile is_digit (sd @ ?om @ ?oa) = ?om @ ?oa"
    using takeWhile_digits [OF sd(1) hd_rest] by simp_all
  have s3: "opt_group ''*/'' (?om @ ?oa) = (m, ?oa)"
    using opt_group_part [OF m hd_oa] .
  have s4: "opt_group ''+-'' ?oa = (a, [])"
    using opt_group_part [OF a, of "[]"] by simp
  show ?thesis
    using d sd(2) by (simp add: re_match_def s1 s2 s3 s4 Let_def)
qed

lemma strip_padded:
  assumes "list_all is_space ws1" "list_all is_space ws2" "t \<noteq> []"
    "\<not> is_space (hd t)" "\<not> is_space (last t)"
  shows "strip (ws1 @ t @ ws2) = t"
proof -
  have a1: "\<forall>x\<in>set ws1. is_space x" and a2: "\<forall>x\<in>set (rev ws2). is_space x"
    using assms(1,2) by (simp_all add: list_all_iff)
  have "dropWhile is_space (t @ ws2) = t @ ws2"
    using assms(3,4) by (cases t) simp_all
  moreover have "dropWhile is_space (ws1 @ t @ ws2) = dropWhile is_space (t @ ws2)"
    by (rule dropWhile_append2) (use a1 in blast)
  ultimately have front: "dropWhile is_space (ws1 @ t @ ws2) = t @ ws2"
    by simp
  have "dropWhile is_space (rev t) = rev t"
    using assms(3,5) by (cases "rev t") (auto simp: last_rev [symmetric] hd_rev)
  moreover have "dropWhile is_space (rev ws2 @ rev t) = dropWhile is_space (rev t)"
    by (rule dropWhile_append2) (use a2 in blast)
  ultimately have "dropWhile is_space (rev ws2 @ rev t) = rev t"
    by simp
  then show ?thesis
    by (simp add: strip_def front)
qed

lemma dice_text_ends:
  assumes wf: "well_formed cnt sd m a" and d: "d = CHR ''d'' \<or> d = CHR ''D''"
  shows "dice_text cnt d sd m a \<noteq> []"
    and "\<not> is_space (hd (dice_text cnt d sd m a))"
    and "\<not> is_space (last (dice_text cnt d sd m a))"
proof -
  have cnt: "\<forall>x\<in>set cnt. is_digit x" and sd: "\<forall>x\<in>set sd. is_digit x" "sd \<noteq> []"
    using wf by (simp_all add: well_formed_def digits_def list_all_iff)
  show "dice_text cnt d sd m a \<noteq> []"
    by (simp add: dice_text_def)
  show "\<not> is_space (hd (dice_text cnt d sd m a))"
    using cnt letter_d_facts(2) [OF d] digit_not_space
    by (cases cnt) (auto simp: dice_text_def)
  have "is_digit (last (dice_text cnt d sd m a))"
  proof (cases a)
    case (Some cv)
    then obtain c v where "a = Some (c, v)" "v \<noteq> []" "\<forall>x\<in>set v. is_digit x"
      using wf by (cases cv) (auto simp: well_formed_def opt_part_ok_def digits_def list_all_iff)
    then show ?thesis
      by (simp add: dice_text_def opt_part_text_def)
  next
    case None
    show ?thesis
    proof (cases m)
      case (Some cv)
      then obtain c v where "m = Some (c, v)" "v \<noteq> []" "\<forall>x\<in>set v. is_digit x"
        using wf by (cases cv) (auto simp: well_formed_def opt_part_ok_def digits_def list_all_iff)
      then show ?thesis
        using None by (simp add: dice_text_def opt_part_text_def)
    next
      case None2: None
      then show ?thesis
        using None sd by (simp add: dice_text_def opt_part_text_def)
    qed
  qed
  then show "\<not> is_space (last (dice_text cnt d sd m a))"
    by (rule digit_not_space)
qed

lemma from_string_of_match:
  assumes rm: "re_match (strip s) = Some (cnt, sd, m, a, r)"
    and m: "opt_part_ok ''*/'' m" and a: "opt_part_ok ''+-'' a"
  shows "from_string s
     = (if short_numbers cnt sd m a then Inr (dice_of cnt sd m a) else Inl ValueError)"
proof -
  have mv: "(case m of
        None \<Rightarrow> Inr 1
      | Some (c, v) \<Rightarrow>
          (case int_of_digits v of
             Inl e \<Rightarrow> Inl e
           | Inr mul_value \<Rightarrow>
               Inr (if c = CHR ''*'' then mul_value
                    else if c = CHR ''/'' then - mul_value else 1)))
      = (if part_short m
         then Inr (case m of None \<Rightarrow> 1
            | Some (c, v) \<Rightarrow> if c = CHR ''*'' then digits_value v else - digits_value v)
         else Inl ValueError)"
    using m by (auto simp: opt_part_ok_def part_short_def int_of_digits_def split: option.splits)
  have av: "(case a of
        None \<Rightarrow> Inr 0
      | Some (c, v) \<Rightarrow>
          (case int_of_digits v of
             Inl e \<Rightarrow> Inl e
           | Inr add_value \<Rightarrow>
               Inr (if c = CHR ''+'' then add_value
                    else if c = CHR ''-'' then - add_value else 0)))
      = (if part_short a
         then Inr (case a of None \<Rightarrow> 0
            | Some (c, v) \<Rightarrow> if c = CHR ''+'' then digits_value v else - digits_value v)
         else Inl ValueError)"
    using a by (auto simp: opt_part_ok_def part_short_def int_of_digits_def split: option.splits)
  show ?thesis
    unfolding from_string_def rm
    by (simp add: mv av dice_of_def short_numbers_def int_of_digits_def)
qed

lemma from_string_well_formed:
  assumes wf: "well_formed cnt sd m a" and d: "d = CHR ''d'' \<or> d = CHR ''D''"
    and ws: "list_all is_space ws1" "list_all is_space ws2"
  shows "from_string (ws1 @ dice_text cnt d sd m a @ ws2)
     = (if short_numbers cnt sd m a then Inr (dice_of cnt sd m a) else Inl ValueError)"
proof -
  have st: "strip (ws1 @ dice_text cnt d sd m a @ ws2) = dice_text cnt d sd m a"
    using strip_padded [OF ws dice_text_ends [OF wf d]] .
  have m: "opt_part_ok ''*/'' m" and a: "opt_part_ok ''+-'' a"
    using wf by (simp_all add: well_formed_def)
  have "re_match (strip (ws1 @ dice_text cnt d sd m a @ ws2)) = Some (cnt, sd, m, a, [])"
    unfolding st by (rule re_match_well_formed [OF wf d])
  then show ?thesis
    using m a by (rule from_string_of_match)
qed


lemma re_match_accepts:
  assumes wf: "well_formed cnt sd m a" and d: "d = CHR ''d'' \<or> d = CHR ''D''"
  shows "re_match (dice_text cnt d sd m a @ rest) \<noteq> None"
proof -
  let ?tail = "opt_part_text m @ opt_part_text a @ rest"
  have cnt: "digits cnt" and sd: "\<forall>x\<in>set sd. is_digit x" "sd \<noteq> []"
    using wf by (simp_all add: well_formed_def digits_def list_all_iff)
  have s1: "takeWhile is_digit (cnt @ d # sd @ ?tail) = cnt"
      "dropWhile is_digit (cnt @ d # sd @ ?tail) = d # sd @ ?tail"
    using takeWhile_digits [OF cnt, of "d # sd @ ?tail"] letter_d_facts(1) [OF d] by simp_all
  have s2: "takeWhile is_digit (sd @ ?tail) \<noteq> []"
    using sd by (cases sd) simp_all
  show ?thesis
    using d s2 by (simp add: re_match_def dice_text_def s1 Let_def split: prod.splits)
qed

lemma re_match_prefix:
  assumes "re_match t = Some r"
  shows "\<exists>cnt d sd rest. well_formed cnt sd None None \<and> (d = CHR ''d'' \<or> d = CHR ''D'')
     \<and> t = dice_text cnt d sd None None @ rest"
proof -
  obtain c r2 where dr: "dropWhile is_digit t = c # r2"
      and c: "c = CHR ''d'' \<or> c = CHR ''D''" and sd: "takeWhile is_digit r2 \<noteq> []"
    using assms by (auto simp: re_match_def Let_def split: list.splits if_splits)
  have "t = takeWhile is_digit t @ dropWhile is_digit t"
    by simp
  also have "\<dots> = takeWhile is_digit t @ c # takeWhile is_digit r2 @ dropWhile is_digit r2"
    unfolding dr by simp
  finally have t: "t = dice_text (takeWhile is_digit t) c (takeWhile is_digit r2) None None
      @ dropWhile is_digit r2"
    by (simp add: dice_text_def opt_part_text_def)
  have "digits (takeWhile is_digit xs)" for xs
    by (auto simp: digits_def list_all_iff dest: set_takeWhileD)
  then have "well_formed (takeWhile is_digit t) (takeWhile is_digit r2) None None"
    using sd by (simp add: well_formed_def opt_part_ok_def)
  with c t show ?thesis by blast
qed

lemma re_match_iff:
  "re_match t \<noteq> None \<longleftrightarrow>
   (\<exists>cnt d sd m a rest. well_formed cnt sd m a \<and> (d = CHR ''d'' \<or> d = CHR ''D'')
      \<and> t = dice_text cnt d sd m a @ rest)"
proof
  assume "re_match t \<noteq> None"
  then obtain x where "re_match t = Some x"
    by auto
  from re_match_prefix [OF this] show "\<exists>cnt d sd m a rest. well_formed cnt sd m a
      \<and> (d = CHR ''d'' \<or> d = CHR ''D'') \<and> t = dice_text cnt d sd m a @ rest"
    by blast
next
  assume "\<exists>cnt d sd m a rest. well_formed cnt sd m a \<and> (d = CHR ''d'' \<or> d = CHR ''D'')
      \<and> t = dice_text cnt d sd m a @ rest"
  then show "re_match t \<noteq> None"
    using re_match_accepts by auto
qed

lemma from_string_succeeds_matches:
  assumes "from_string s = Inr r"
  shows "re_match (strip s) \<noteq> None"
  using assms by (cases "re_match (strip s)") (simp_all add: from_string_def)

lemma from_string_raises_ValueError:
  assumes "from_string s = Inl e"
  shows "e = ValueError"
proof (cases "re_match (strip s)")
  case None
  then show ?thesis
    using assms by (simp add: from_string_def)
next
  case (Some x)
  obtain g1 g2 g34 g56 r where x: "x = (g1, g2, g34, g56, r)"
    by (cases x)
  have i: "int_of_digits v = Inl e' \<Longrightarrow> e' = ValueError" for v e'
    by (simp add: int_of_digits_def split: if_splits)
  show ?thesis
    using assms unfolding from_string_def Some x
    by (auto split: sum.splits option.splits if_splits dest: i)
qed

lemma from_string_fails_iff:
  "from_string s = Inl ValueError \<longleftrightarrow> \<not> (\<exists>r. from_string s = Inr r)"
proof (cases "from_string s")
  case (Inl e)
  then show ?thesis
    using from_string_raises_ValueError by auto
next
  case (Inr r)
  then show ?thesis by simp
qed

lemma dice_grammar_chars:
  assumes "dice_grammar s"
  shows "\<forall>c\<in>set s. is_digit c \<or> c \<in> set ''d*/+-''"
proof -
  obtain cnt sd m a where wf: "well_formed cnt sd m a" and s: "s = dice_text cnt (CHR ''d'') sd m a"
    using assms by (auto simp: dice_grammar_def)
  have "\<forall>c\<in>set (opt_part_text p). is_digit c \<or> c \<in> set ''d*/+-''"
    if "opt_part_ok ''*/'' p \<or> opt_part_ok ''+-'' p" for p
    using that
    by (auto simp: opt_part_ok_def opt_part_text_def digits_def list_all_iff split: option.splits)
  then show ?thesis
    using wf unfolding s dice_text_def well_formed_def digits_def list_all_iff by auto
qed

text \<open>
  Claim C3 as stated fails. The parser strips the white space around the text and
  ignores the case of the letter, so \<^verbatim>\<open> 3D6 \<close>, which is no text of the grammar, is
  parsed. It also matches the pattern at the start of the stripped text only and never
  looks at what follows the match, so \<^verbatim>\<open>2d8xyz\<close> is parsed as well.
\<close>

theorem from_string_outside_grammar_counterexample:
  "\<not> dice_grammar '' 3D6 '' \<and> from_string '' 3D6 '' = Inr (Dice 3 6 1 0)
   \<and> \<not> dice_grammar ''2d8xyz'' \<and> from_string ''2d8xyz'' = Inr (Dice 2 8 1 0)"
proof -
  have "\<not> dice_grammar ''2d8xyz''"
    using dice_grammar_chars [of "''2d8xyz''"] by (auto simp: is_digit_def)
  moreover have "\<not> dice_grammar '' 3D6 ''"
    using dice_grammar_chars [of "'' 3D6 ''"] by (auto simp: is_digit_def)
  moreover have "from_string ''2d8xyz'' = Inr (Dice 2 8 1 0)"
    by (simp add: from_string_def re_match_def strip_def opt_group_def is_space_def is_digit_def
        int_of_digits_def MAX_STR_DIGITS_def digits_value_def Let_def)
  moreover have "from_string '' 3D6 '' = Inr (Dice 3 6 1 0)"
    by (simp add: from_string_def re_match_def strip_def opt_group_def is_space_def is_digit_def
        int_of_digits_def MAX_STR_DIGITS_def digits_value_def Let_def)
  ultimately show ?thesis by simp
qed

text \<open>
  Claim C3, amended. On every text that is, between white space, exactly a text of the
  grammar written with \<^verbatim>\<open>d\<close> or \<^verbatim>\<open>D\<close>, parsing does one of two things: when no
  number of the text has more than 4300 digits it succeeds and returns the count (1
  when omitted), the sides, the multiplier (negative for a divisor) and the addition;
  when one has, it fails with \<^verbatim>\<open>ValueError\<close>. In particular this is what happens on
  every text of the claim's grammar. On every text that, stripped of the white space
  around it, does not even begin with a count, the letter and a digit of the sides,
  parsing fails with \<^verbatim>\<open>ValueError\<close>. The amended claim says nothing of a text that
  begins with a text of the grammar and goes on; the pattern matches there
  (\<open>re_match_iff\<close>) and the rest of the text is ignored.
\<close>

theorem from_string_parses_grammar_texts:
  "(well_formed cnt sd m a \<and> short_numbers cnt sd m a \<and> (d = CHR ''d'' \<or> d = CHR ''D'')
        \<and> list_all is_space ws1 \<and> list_all is_space ws2
      \<longrightarrow> from_string (ws1 @ dice_text cnt d sd m a @ ws2) = Inr (dice_of cnt sd m a))
   \<and> (well_formed cnt sd m a \<and> \<not> short_numbers cnt sd m a \<and> (d = CHR ''d'' \<or> d = CHR ''D'')
        \<and> list_all is_space ws1 \<and> list_all is_space ws2
      \<longrightarrow> from_string (ws1 @ dice_text cnt d sd m a @ ws2) = Inl ValueError)
   \<and> (dice_grammar s \<longrightarrow>
        (\<exists>cnt sd m a. well_formed cnt sd m a \<and> s = dice_text cnt (CHR ''d'') sd m a
           \<and> from_string s
               = (if short_numbers cnt sd m a then Inr (dice_of cnt sd m a)
                  else Inl ValueError)))
   \<and> (\<not> (\<exists>cnt d sd rest. digits cnt \<and> (d = CHR ''d'' \<or> d = CHR ''D'') \<and> sd \<noteq> []
             \<and> digits sd \<and> strip s = cnt @ d # sd @ rest)
      \<longrightarrow> from_string s = Inl ValueError)"
proof (intro conjI impI)
  assume "well_formed cnt sd m a \<and> short_numbers cnt sd m a \<and> (d = CHR ''d'' \<or> d = CHR ''D'')
        \<and> list_all is_space ws1 \<and> list_all is_space ws2"
  then show "from_string (ws1 @ dice_text cnt d sd m a @ ws2) = Inr (dice_of cnt sd m a)"
    by (simp add: from_string_well_formed)
next
  assume "well_formed cnt sd m a \<and> \<not> short_numbers cnt sd m a \<and> (d = CHR ''d'' \<or> d = CHR ''D'')
        \<and> list_all is_space ws1 \<and> list_all is_space ws2"
  then show "from_string (ws1 @ dice_text cnt d sd m a @ ws2) = Inl ValueError"
    by (simp add: from_string_well_formed)
next
  assume "dice_grammar s"
  then obtain cnt sd m a where wf: "well_formed cnt sd m a" and s: "s = dice_text cnt (CHR ''d'') sd m a"
    by (auto simp: dice_grammar_def)
  have "from_string ([] @ dice_text cnt (CHR ''d'') sd m a @ [])
      = (if short_numbers cnt sd m a then Inr (dice_of cnt sd m a) else Inl ValueError)"
    by (rule from_string_well_formed [OF wf]) simp_all
  then have "from_string s
      = (if short_numbers cnt sd m a then Inr (dice_of cnt sd m a) else Inl ValueError)"
    unfolding s by simp
  with wf s show "\<exists>cnt sd m a. well_formed cnt sd m a \<and> s = dice_text cnt (CHR ''d'') sd m a
           \<and> from_string s
               = (if short_numbers cnt sd m a then Inr (dice_of cnt sd m a)
                  else Inl ValueError)"
    by blast
next
  assume no: "\<not> (\<exists>cnt d sd rest. digits cnt \<and> (d = CHR ''d'' \<or> d = CHR ''D'') \<and> sd \<noteq> []
             \<and> digits sd \<and> strip s = cnt @ d # sd @ rest)"
  have "re_match (strip s) = None"
  proof (rule ccontr)
    assume "re_match (strip s) \<noteq> None"
    then obtain cnt d sd m a rest where "well_formed cnt sd m a" "d = CHR ''d'' \<or> d = CHR ''D''"
        "strip s = dice_text cnt d sd m a @ rest"
      unfolding re_match_iff by blast
    then have "digits cnt \<and> (d = CHR ''d'' \<or> d = CHR ''D'') \<and> sd \<noteq> [] \<and> digits sd
        \<and> strip s = cnt @ d # sd @ (opt_part_text m @ opt_part_text a @ rest)"
      by (simp add: well_formed_def dice_text_def)
    with no show False by blast
  qed
  then show "from_string s = Inl ValueError"
    by (simp add: from_string_def)
qed

text \<open>
  The scenario of the specification: \<^verbatim>\<open>2d8+3\<close> is count 2, sides 8, addition 3. It is
  parsed with a no-break space before it and a next-line character after it as well. A
  count of 4301 digits is refused, and so is a text without the letter.
\<close>

theorem from_string_parses_grammar_texts_witness:
  "well_formed ''2'' ''8'' None (Some (CHR ''+'', ''3''))
   \<and> short_numbers ''2'' ''8'' None (Some (CHR ''+'', ''3''))
   \<and> dice_text ''2'' (CHR ''d'') ''8'' None (Some (CHR ''+'', ''3'')) = ''2d8+3''
   \<and> dice_of ''2'' ''8'' None (Some (CHR ''+'', ''3'')) = Dice 2 8 1 3
   \<and> list_all is_space [CHR 0xA0] \<and> list_all is_space [CHR 0x85]
   \<and> from_string ''2d8+3'' = Inr (Dice 2 8 1 3)
   \<and> from_string (CHR 0xA0 # ''2d8+3'' @ [CHR 0x85]) = Inr (Dice 2 8 1 3)
   \<and> dice_grammar ''2d8+3''
   \<and> well_formed (replicate 4301 (CHR ''1'')) ''6'' None None
   \<and> \<not> short_numbers (replicate 4301 (CHR ''1'')) ''6'' None None
   \<and> from_string (replicate 4301 (CHR ''1'') @ ''d6'') = Inl ValueError
   \<and> strip ''2+3'' = ''2+3''
   \<and> from_string ''2+3'' = Inl ValueError"
proof -
  have wf: "well_formed ''2'' ''8'' None (Some (CHR ''+'', ''3''))"
    by (simp add: well_formed_def digits_def opt_part_ok_def is_digit_def)
  have short: "short_numbers ''2'' ''8'' None (Some (CHR ''+'', ''3''))"
    by (simp add: short_numbers_def part_short_def MAX_STR_DIGITS_def)
  have rendered: "dice_text ''2'' (CHR ''d'') ''8'' None (Some (CHR ''+'', ''3'')) = ''2d8+3''"
    by (simp add: dice_text_def opt_part_text_def)
  have val: "dice_of ''2'' ''8'' None (Some (CHR ''+'', ''3'')) = Dice 2 8 1 3"
    by (simp add: dice_of_def digits_value_def)
  have ws: "list_all is_space [CHR 0xA0]" "list_all is_space [CHR 0x85]"
    by (simp_all add: is_space_def)
  have "from_string ([] @ dice_text ''2'' (CHR ''d'') ''8'' None (Some (CHR ''+'', ''3'')) @ [])
      = Inr (dice_of ''2'' ''8'' None (Some (CHR ''+'', ''3'')))"
    using from_string_parses_grammar_texts
      [of "''2''" "''8''" None "Some (CHR ''+'', ''3'')" "CHR ''d''" "[]" "[]"] wf short
    by simp
  then have plain: "from_string ''2d8+3'' = Inr (Dice 2 8 1 3)"
    unfolding rendered val by simp
  have "from_string ([CHR 0xA0] @ dice_text ''2'' (CHR ''d'') ''8'' None (Some (CHR ''+'', ''3''))
        @ [CHR 0x85])
      = Inr (dice_of ''2'' ''8'' None (Some (CHR ''+'', ''3'')))"
    using from_string_parses_grammar_texts
      [of "''2''" "''8''" None "Some (CHR ''+'', ''3'')" "CHR ''d''" "[CHR 0xA0]" "[CHR 0x85]"]
      wf short ws
    by simp
  then have padded: "from_string (CHR 0xA0 # ''2d8+3'' @ [CHR 0x85]) = Inr (Dice 2 8 1 3)"
    unfolding rendered val by simp
  have gr: "dice_grammar ''2d8+3''"
    unfolding dice_grammar_def using wf rendered by metis
  have wfl: "well_formed (replicate 4301 (CHR ''1'')) ''6'' None None"
    by (simp add: well_formed_def digits_def opt_part_ok_def is_digit_def list_all_iff)
  have long: "\<not> short_numbers (replicate 4301 (CHR ''1'')) ''6'' None None"
    by (simp add: short_numbers_def MAX_STR_DIGITS_def)
  have "from_string ([] @ dice_text (replicate 4301 (CHR ''1'')) (CHR ''d'') ''6'' None None @ [])
      = Inl ValueError"
    using from_string_parses_grammar_texts
      [of "replicate 4301 (CHR ''1'')" "''6''" None None "CHR ''d''" "[]" "[]"] wfl long
    by simp
  then have refused: "from_string (replicate 4301 (CHR ''1'') @ ''d6'') = Inl ValueError"
    by (simp add: dice_text_def opt_part_text_def)
  have st: "strip ''2+3'' = ''2+3''"
    by (simp add: strip_def is_space_def)
  have "\<not> (\<exists>cnt d sd rest. digits cnt \<and> (d = CHR ''d'' \<or> d = CHR ''D'') \<and> sd \<noteq> []
             \<and> digits sd \<and> strip ''2+3'' = cnt @ d # sd @ rest)"
    unfolding st
    by (auto simp: Cons_eq_append_conv digits_def is_digit_def)
  then have noletter: "from_string ''2+3'' = Inl ValueError"
    using from_string_parses_grammar_texts [where s = "''2+3''"] by blast
  from wf short rendered val ws plain padded gr wfl long refused st noletter show ?thesis
    by (intro conjI)
qed

section \<open>Properties of seeded runs\<close>

lemma without_name_facts [simp]:
  "member_is_alive (without_name x) = member_is_alive x"
  "member_is_dead (without_name x) = member_is_dead x"
  "member_get_level (without_name x) = member_get_level x"
  "member_hit_points (without_name x) = member_hit_points x"
  "member_heal_fully (without_name x) = without_name (member_heal_fully x)"
  "member_take_damage (without_name x) d
     = (fst (member_take_damage x d), without_name (snd (member_take_damage x d)))"
  "without_name (without_name x) = without_name x"
  by (simp_all add: without_name_def member_is_alive_def member_is_dead_def member_get_level_def
      member_hit_points_def member_heal_fully_def member_take_damage_def is_alive_def is_dead_def
      heal_fully_def take_damage_def Let_def split: combatant.splits)

lemma observable_fields [simp]:
  "num_years (observable a) = num_years a"
  "fights_per_year (observable a) = fights_per_year a"
  "num_fighters (observable a) = num_fighters a"
  "start_level (observable a) = start_level a"
  "fight_man_vs_monster (observable a) = fight_man_vs_monster a"
  "report_year_end (observable a) = report_year_end a"
  "base_armor_type (observable a) = base_armor_type a"
  "members (fighter_list (observable a)) = map without_name (members (fighter_list a))"
  by (simp_all add: observable_def)

lemma observable_idem [simp]: "observable (observable a) = observable a"
  by (simp add: observable_def comp_def)

lemma observable_eqD:
  assumes "observable a1 = observable a2"
  shows "num_years a1 = num_years a2" "fights_per_year a1 = fights_per_year a2"
    "num_fighters a1 = num_fighters a2" "start_level a1 = start_level a2"
    "fight_man_vs_monster a1 = fight_man_vs_monster a2"
    "report_year_end a1 = report_year_end a2" "base_armor_type a1 = base_armor_type a2"
    "map without_name (members (fighter_list a1)) = map without_name (members (fighter_list a2))"
  using observable_fields [of a1] observable_fields [of a2] unfolding assms by simp_all

lemma simple_combat_without_name:
  "simple_combat (without_name a) (without_name b) g
     = (case simple_combat a b g of
          Inl e \<Rightarrow> Inl e
        | Inr (a', b', g') \<Rightarrow> Inr (without_name a', without_name b', g'))"
proof (induction a b g rule: simple_combat.induct)
  case (1 a b g)
  define d1 where "d1 = 1 + int (tape g (pos g) mod 8)"
  define g1 where "g1 = g\<lparr>pos := Suc (pos g)\<rparr>"
  define d2 where "d2 = 1 + int (tape g (Suc (pos g)) mod 8)"
  define g2 where "g2 = g\<lparr>pos := Suc (Suc (pos g))\<rparr>"
  define b' where "b' = snd (member_take_damage b d1)"
  define a' where "a' = snd (member_take_damage a d2)"
  have r1: "roll (Dice 1 8 1 0) g = Inr (d1, g1)"
    by (simp add: roll_1d8 d1_def g1_def)
  have r2: "roll (Dice 1 8 1 0) g1 = Inr (d2, g2)"
    by (simp add: roll_1d8 d2_def g2_def g1_def)
  show ?case
  proof (cases "member_is_alive a \<and> member_is_alive b")
    case False
    then have "simple_combat a b g = Inr (a, b, g)"
      and "simple_combat (without_name a) (without_name b) g = Inr (without_name a, without_name b, g)"
      by (subst simple_combat.simps, auto)+
    then show ?thesis by simp
  next
    case True
    have u1: "simple_combat a b g =
        (if \<not> member_is_alive b' then Inr (a, b', g1) else simple_combat a' b' g2)"
      using True by (subst simple_combat.simps) (simp add: r1 r2 a'_def b'_def Let_def)
    have u2: "simple_combat (without_name a) (without_name b) g =
        (if \<not> member_is_alive b' then Inr (without_name a, without_name b', g1)
         else simple_combat (without_name a') (without_name b') g2)"
      using True by (subst simple_combat.simps) (simp add: r1 r2 a'_def b'_def Let_def)
    show ?thesis
    proof (cases "member_is_alive b'")
      case False
      then show ?thesis using u1 u2 by simp
    next
      case alive: True
      have "simple_combat (without_name a') (without_name b') g2
          = (case simple_combat a' b' g2 of
               Inl e \<Rightarrow> Inl e
             | Inr (x, y, h) \<Rightarrow> Inr (without_name x, without_name y, h))"
        using "1.IH" [of "(d1, g1)" d1 g1 b' "(d2, g2)" d2 g2] True r1 r2 alive
        by (simp add: a'_def b'_def)
      then show ?thesis using u1 u2 alive by simp
    qed
  qed
qed


lemma duel_pairs_without_name:
  "duel_pairs (map without_name ms) g
     = (case duel_pairs ms g of
          Inl e \<Rightarrow> Inl e
        | Inr (ms', g') \<Rightarrow> Inr (map without_name ms', g'))"
proof (induction ms g rule: duel_pairs.induct)
  case (1 a b rest g)
  obtain a' b' g1 where sc: "simple_combat a b g = Inr (a', b', g1)"
    using simple_combat_returns by blast
  then have sc': "simple_combat (without_name a) (without_name b) g
      = Inr (without_name a', without_name b', g1)"
    by (simp add: simple_combat_without_name)
  show ?case
    using "1.IH" [OF sc refl refl] sc sc' by (simp split: sum.splits)
next
  case "2_1"
  show ?case by simp
next
  case "2_2"
  show ?case by simp
qed

lemma party_members_update [simp]: "p\<lparr>members := ms\<rparr> = \<lparr>members = ms\<rparr>"
  by (cases p) simp

lemma observable_fighter_list [simp]:
  "observable (a\<lparr>fighter_list := p\<rparr>)
     = (observable a)\<lparr>fighter_list := \<lparr>members = map without_name (members p)\<rparr>\<rparr>"
  by (simp add: observable_def)

lemma fight_duels_observable:
  "fight_duels (observable a) g = observed_cycle (fight_duels a g)"
proof (cases "fight_man_vs_monster a")
  case True
  then show ?thesis
    by (simp add: fight_duels_def fight_duels_man_vs_monster_def observed_cycle_def)
next
  case False
  obtain ms' g' where r: "duel_pairs (members (fighter_list a)) g = Inr (ms', g')"
    using duel_pairs_result [of "members (fighter_list a)" g] by blast
  then have r': "duel_pairs (map without_name (members (fighter_list a))) g
      = Inr (map without_name ms', g')"
    by (simp add: duel_pairs_without_name)
  have "duel_loop 0 (members (fighter_list a)) g = Inr (ms', g')"
    using duel_loop_is_duel_pairs [of 0 "members (fighter_list a)" g] r by simp
  moreover have "duel_loop 0 (map without_name (members (fighter_list a))) g
      = Inr (map without_name ms', g')"
    using duel_loop_is_duel_pairs [of 0 "map without_name (members (fighter_list a))" g] r'
    by simp
  ultimately show ?thesis
    using False
    by (simp add: fight_duels_def fight_duels_man_vs_man_def observed_cycle_def)
qed

lemma shuffle_from_map:
  "i < length xs \<Longrightarrow>
   shuffle_from i (map f xs) g = (map f (fst (shuffle_from i xs g)), snd (shuffle_from i xs g))"
proof (induction i arbitrary: xs g)
  case 0
  show ?case by simp
next
  case (Suc i)
  let ?j = "tape g (pos g) mod (Suc i + 1)"
  have "?j < Suc i + 1"
    by (rule mod_less_divisor) simp
  then have j: "?j < length xs"
    using Suc.prems by linarith
  let ?xs = "xs[Suc i := xs ! ?j, ?j := xs ! Suc i]"
  have "(map f xs)[Suc i := map f xs ! ?j, ?j := map f xs ! Suc i] = map f ?xs"
    using j Suc.prems by (simp add: map_update)
  moreover have "i < length ?xs"
    using Suc.prems by simp
  ultimately show ?case
    using Suc.IH [of ?xs "g\<lparr>pos := Suc (pos g)\<rparr>"]
    by (simp add: randbelow_def)
qed

lemma shuffle_map:
  "shuffle (map f xs) g = (map f (fst (shuffle xs g)), snd (shuffle xs g))"
proof (cases xs)
  case Nil
  then show ?thesis by (simp add: shuffle_def)
next
  case (Cons x rest)
  then have "length xs - 1 < length xs" by simp
  from shuffle_from_map [OF this, of f g] show ?thesis
    by (simp add: shuffle_def)
qed

lemma shuffle_members_without_name:
  "shuffle_members \<lparr>members = map without_name ms\<rparr> g
     = (\<lparr>members = map without_name (members (fst (shuffle_members \<lparr>members = ms\<rparr> g)))\<rparr>,
        snd (shuffle_members \<lparr>members = ms\<rparr> g))"
  by (simp add: shuffle_members_def shuffle_map split: prod.splits)

lemma cull_heal_without_name:
  "heal_all (clear_fallen (snd (bring_out_your_dead \<lparr>members = map without_name ms\<rparr>)))
     = \<lparr>members = map without_name
          (members (heal_all (clear_fallen (snd (bring_out_your_dead \<lparr>members = ms\<rparr>)))))\<rparr>"
  by (simp add: heal_all_def clear_fallen_def bring_out_your_dead_def get_living_members_def
      Let_def filter_map comp_def)

lemma year_end_observable: "year_end (observable a) y = year_end a y"
  by (simp add: year_end_def num_living_def get_living_members_def get_average_level_def
      filter_map comp_def)

lemma name_update_commutes:
  "(c\<lparr>name := nm\<rparr>)\<lparr>ability_scores := x, ability_score_damage := y\<rparr>
     = (c\<lparr>ability_scores := x, ability_score_damage := y\<rparr>)\<lparr>name := nm\<rparr>"
  by (cases c) simp

lemma roll_hit_points_name:
  "roll_hit_points (c\<lparr>name := nm\<rparr>) g
     = (case roll_hit_points c g of
          Inl e \<Rightarrow> Inl e
        | Inr (c', g') \<Rightarrow> Inr (c'\<lparr>name := nm\<rparr>, g'))"
  by (simp add: roll_hit_points_def split: sum.splits)

lemma roll_abilities_name:
  "roll_abilities d abilities (c\<lparr>name := nm\<rparr>) g
     = (case roll_abilities d abilities c g of
          Inl e \<Rightarrow> Inl e
        | Inr (c', g') \<Rightarrow> Inr (c'\<lparr>name := nm\<rparr>, g'))"
proof (induction abilities arbitrary: c g)
  case Nil
  show ?case by simp
next
  case (Cons a rest)
  show ?case
  proof (cases "roll d g")
    case (Inl e)
    then show ?thesis by simp
  next
    case (Inr vg)
    obtain v g1 where vg: "vg = (v, g1)" by (cases vg)
    have "roll_abilities d (a # rest) (c\<lparr>name := nm\<rparr>) g
        = roll_abilities d rest
            ((c\<lparr>ability_scores := (ability_scores c)(a \<mapsto> v),
               ability_score_damage := (ability_score_damage c)(a \<mapsto> 0)\<rparr>)\<lparr>name := nm\<rparr>) g1"
      by (simp add: Inr vg name_update_commutes [where c = c and nm = nm])
    also have "\<dots> = (case roll_abilities d rest
            (c\<lparr>ability_scores := (ability_scores c)(a \<mapsto> v),
               ability_score_damage := (ability_score_damage c)(a \<mapsto> 0)\<rparr>) g1 of
          Inl e \<Rightarrow> Inl e
        | Inr (c', g') \<Rightarrow> Inr (c'\<lparr>name := nm\<rparr>, g'))"
      by (rule Cons.IH)
    also have "\<dots> = (case roll_abilities d (a # rest) c g of
          Inl e \<Rightarrow> Inl e
        | Inr (c', g') \<Rightarrow> Inr (c'\<lparr>name := nm\<rparr>, g'))"
      by (simp add: Inr vg)
    finally show ?thesis .
  qed
qed


lemma roll_ability_scores_name:
  "roll_ability_scores (c\<lparr>name := nm\<rparr>) opt h
      = (case roll_ability_scores c opt h of
          Inl e \<Rightarrow> Inl e
        | Inr (c', g') \<Rightarrow> Inr (c'\<lparr>name := nm\<rparr>, g'))"
  by (simp add: roll_ability_scores_def roll_abilities_name split: sum.splits)

lemma extend_name:
  "monster.extend m (character.fields nm ag ct lvl sc dm ar sh wp xp sw)
      = (monster.extend m (character.fields [] ag ct lvl sc dm ar sh wp xp sw))\<lparr>name := nm\<rparr>"
  by (simp add: monster.defs character.defs)

lemma Character_name:
  "Character nm lvl ct g
     = (case Character [] lvl ct g of
          Inl e \<Rightarrow> Inl e
        | Inr (c, g') \<Rightarrow> Inr (c\<lparr>name := nm\<rparr>, g'))"
proof (cases "Monster (ClassType_value ct @ '' '' @ str_int lvl) BASE_ARMOR_CLASS BASE_MOVEMENT
             (Some (Dice lvl 6 1 0)) (Some (Attack 1 ''1d8'' 0)) g")
  case (Inl e)
  then show ?thesis by (simp add: Character_def)
next
  case (Inr mg)
  obtain m g1 where mg: "mg = (m, g1)" by (cases mg)
  let ?c0 = "monster.extend m
      (character.fields [] BASE_AGE ct lvl Map.empty Map.empty None None None 0 0)"
  have l: "Character nm lvl ct g
      = (case roll_ability_scores (?c0\<lparr>name := nm\<rparr>) 0 g1 of
           Inl e \<Rightarrow> Inl e
         | Inr (c, g2) \<Rightarrow> roll_hit_points c g2)"
    unfolding Character_def Inr mg by (simp add: extend_name [where nm = nm])
  have r: "Character [] lvl ct g
      = (case roll_ability_scores ?c0 0 g1 of
           Inl e \<Rightarrow> Inl e
         | Inr (c, g2) \<Rightarrow> roll_hit_points c g2)"
    unfolding Character_def Inr mg by simp
  show ?thesis
  proof (cases "roll_ability_scores ?c0 0 g1")
    case (Inl e)
    then show ?thesis
      unfolding l r by (simp add: roll_ability_scores_name)
  next
    case (Inr cg)
    obtain c g2 where cg: "cg = (c, g2)" by (cases cg)
    show ?thesis
      unfolding l r by (simp add: roll_ability_scores_name Inr cg roll_hit_points_name)
  qed
qed

lemma Character_unnamed:
  assumes "Character [] lvl ct g = Inr (c, g1)"
  shows "name c = []"
proof -
  have "Character [] lvl ct g = Inr (c\<lparr>name := []\<rparr>, g1)"
    by (subst Character_name) (simp add: assms)
  with assms have "c = c\<lparr>name := []\<rparr>" by simp
  then have "name c = name (c\<lparr>name := []\<rparr>)" by (rule arg_cong)
  then show ?thesis by simp
qed

lemma name_update_same: "name c = [] \<Longrightarrow> c\<lparr>name := []\<rparr> = c"
  by (cases c) simp

lemma equip_keeps_name:
  "name (set_weapon
     (case t of
        None \<Rightarrow> set_alignment c al
      | Some x \<Rightarrow> set_armor (set_alignment c al) (Some (make_type x 0)))
     w) = name c"
  by (cases t)
     (simp_all add: set_alignment_def set_armor_def set_weapon_def update_armor_class_def Let_def)

lemma equip_name:
  "set_weapon
     (case t of
        None \<Rightarrow> set_alignment (c\<lparr>name := nm\<rparr>) al
      | Some x \<Rightarrow> set_armor (set_alignment (c\<lparr>name := nm\<rparr>) al) (Some (make_type x 0)))
     w
   = (set_weapon
       (case t of
          None \<Rightarrow> set_alignment c al
        | Some x \<Rightarrow> set_armor (set_alignment c al) (Some (make_type x 0)))
       w)\<lparr>name := nm\<rparr>"
  by (cases c)
     (simp add: set_alignment_def set_armor_def set_weapon_def update_armor_class_def
        get_ability_modifier_def get_ability_score_def Let_def split: option.splits)

lemma new_fighter_unnamed:
  "unnamed_fighter (new_fighter a lvl g)
     = (case Character [] lvl FIGHTER g of
          Inl e \<Rightarrow> Inl e
        | Inr (fighter, g1) \<Rightarrow>
            (case random_normal g1 of
               Inl e \<Rightarrow> Inl e
             | Inr (al, g2) \<Rightarrow>
                 Inr (set_weapon
                        (case base_armor_type a of
                           None \<Rightarrow> set_alignment fighter al
                         | Some t \<Rightarrow> set_armor (set_alignment fighter al) (Some (make_type t 0)))
                        (Some (create_sword 0)), g2)))"
proof (cases "Character [] lvl FIGHTER g")
  case (Inl e)
  have "Character (''Fighter_'' @ str_nat (self_id a)) lvl FIGHTER g = Inl e"
    by (subst Character_name) (simp add: Inl)
  then show ?thesis
    by (simp add: new_fighter_def unnamed_fighter_def Inl)
next
  case (Inr cg)
  obtain c g1 where cg: "cg = (c, g1)" by (cases cg)
  have nm: "name c = []"
    using Character_unnamed Inr cg by blast
  have ch: "Character (''Fighter_'' @ str_nat (self_id a)) lvl FIGHTER g
      = Inr (c\<lparr>name := ''Fighter_'' @ str_nat (self_id a)\<rparr>, g1)"
    by (subst Character_name) (simp add: Inr cg)
  obtain al where al: "random_normal g1 = Inr (al, g1\<lparr>pos := Suc (pos g1)\<rparr>)"
    using random_normal_returns by blast
  let ?f = "set_weapon
       (case base_armor_type a of
          None \<Rightarrow> set_alignment c al
        | Some x \<Rightarrow> set_armor (set_alignment c al) (Some (make_type x 0)))
       (Some (create_sword 0))"
  have "new_fighter a lvl g
      = Inr (?f\<lparr>name := ''Fighter_'' @ str_nat (self_id a)\<rparr>, g1\<lparr>pos := Suc (pos g1)\<rparr>)"
    by (simp add: new_fighter_def ch [simplified] al Let_def equip_name)
  moreover have "name ?f = []"
    using nm by (simp add: equip_keeps_name)
  then have "?f\<lparr>name := []\<rparr> = ?f"
    by (rule name_update_same)
  ultimately show ?thesis
    by (simp add: unnamed_fighter_def Inr cg al)
qed


lemma run_one_cycle_split:
  "run_one_cycle a g =
     (case recruit_new_fighters a g of
        Inl e \<Rightarrow> Inl e
      | Inr (a1, g1) \<Rightarrow> after_recruiting a1 g1)"
  by (simp add: run_one_cycle_def after_recruiting_def Let_def split: sum.splits prod.splits)

lemma party_is_members: "\<lparr>members = members p\<rparr> = p"
  by (cases p) simp

lemma fighter_list_observable:
  "fighter_list (observable a) = \<lparr>members = map without_name (members (fighter_list a))\<rparr>"
  by (simp add: observable_def)

lemma after_recruiting_observable:
  "after_recruiting (observable a) g = observed_cycle (after_recruiting a g)"
proof -
  obtain p2 g2 where sh: "shuffle_members (fighter_list a) g = (p2, g2)"
    by (cases "shuffle_members (fighter_list a) g")
  have "shuffle_members \<lparr>members = members (fighter_list a)\<rparr> g = (p2, g2)"
    unfolding party_is_members by (rule sh)
  then have sh': "shuffle_members \<lparr>members = map without_name (members (fighter_list a))\<rparr> g
      = (\<lparr>members = map without_name (members p2)\<rparr>, g2)"
    by (simp add: shuffle_members_without_name)
  have fl: "fighter_list (observable a) = \<lparr>members = map without_name (members (fighter_list a))\<rparr>"
    by (simp add: observable_def)
  have fd: "fight_duels ((observable a)\<lparr>fighter_list := \<lparr>members = map without_name (members p2)\<rparr>\<rparr>) g2
      = observed_cycle (fight_duels (a\<lparr>fighter_list := p2\<rparr>) g2)"
    using fight_duels_observable [of "a\<lparr>fighter_list := p2\<rparr>" g2] by simp
  show ?thesis
  proof (cases "fight_duels (a\<lparr>fighter_list := p2\<rparr>) g2")
    case (Inl e)
    then show ?thesis
      unfolding after_recruiting_def fl sh sh'
      by (simp add: observed_cycle_def fd)
  next
    case (Inr ag)
    obtain a3 g3 where ag: "ag = (a3, g3)" by (cases ag)
    have ch: "heal_all (clear_fallen (snd (bring_out_your_dead
          \<lparr>members = map without_name (members (fighter_list a3))\<rparr>)))
        = \<lparr>members = map without_name (members (heal_all (clear_fallen (snd
            (bring_out_your_dead (fighter_list a3))))))\<rparr>"
      using cull_heal_without_name [of "members (fighter_list a3)"]
      unfolding party_is_members .
    show ?thesis
      unfolding after_recruiting_def fl sh sh'
      by (simp add: observed_cycle_def fd Inr ag ch fighter_list_observable)
  qed
qed

lemma unnamed_fighter_cases:
  assumes "unnamed_fighter r1 = unnamed_fighter r2"
  shows "(\<exists>e. r1 = Inl e \<and> r2 = Inl e)
     \<or> (\<exists>f1 f2 g'. r1 = Inr (f1, g') \<and> r2 = Inr (f2, g') \<and> f1\<lparr>name := []\<rparr> = f2\<lparr>name := []\<rparr>)"
  using assms by (auto simp: unnamed_fighter_def split: sum.splits)

lemma recruit_new_fighters_observable:
  "observable a1 = observable a2 \<Longrightarrow>
   observed_cycle (recruit_new_fighters a1 g) = observed_cycle (recruit_new_fighters a2 g)"
proof (induction a1 g arbitrary: a2 rule: recruit_new_fighters.induct)
  case (1 a1 g)
  note eq = observable_eqD [OF "1.prems"]
  have size: "get_size (fighter_list a1) = get_size (fighter_list a2)"
    using arg_cong [OF eq(8), of length] by (simp add: get_size_def)
  show ?case
  proof (cases "get_size (fighter_list a1) < num_fighters a1")
    case False
    then have "recruit_new_fighters a1 g = Inr (a1, g)" "recruit_new_fighters a2 g = Inr (a2, g)"
      using size eq(3) by (subst recruit_new_fighters.simps, simp)+
    then show ?thesis
      using "1.prems" by (simp add: observed_cycle_def)
  next
    case True
    then have True2: "get_size (fighter_list a2) < num_fighters a2"
      using size eq(3) by simp
    have "unnamed_fighter (new_fighter a1 (start_level a1) g)
        = unnamed_fighter (new_fighter a2 (start_level a2) g)"
      unfolding new_fighter_unnamed eq(4) eq(7) by (rule refl)
    from unnamed_fighter_cases [OF this] show ?thesis
    proof (elim disjE exE conjE)
      fix e
      assume "new_fighter a1 (start_level a1) g = Inl e" "new_fighter a2 (start_level a2) g = Inl e"
      then have "recruit_new_fighters a1 g = Inl e" "recruit_new_fighters a2 g = Inl e"
        using True True2 by (subst recruit_new_fighters.simps, simp)+
      then show ?thesis by simp
    next
      fix f1 f2 g'
      assume nf: "new_fighter a1 (start_level a1) g = Inr (f1, g')"
          "new_fighter a2 (start_level a2) g = Inr (f2, g')"
        and same: "f1\<lparr>name := []\<rparr> = f2\<lparr>name := []\<rparr>"
      let ?a1 = "a1\<lparr>fighter_list := add_member (fighter_list a1) (Chr f1)\<rparr>"
      let ?a2 = "a2\<lparr>fighter_list := add_member (fighter_list a2) (Chr f2)\<rparr>"
      have "observable ?a1 = observable ?a2"
        using "1.prems" eq(8) same by (simp add: add_member_def without_name_def)
      from "1.IH" [OF True nf(1) refl this]
      have "observed_cycle (recruit_new_fighters ?a1 g') = observed_cycle (recruit_new_fighters ?a2 g')" .
      moreover have "recruit_new_fighters a1 g = recruit_new_fighters ?a1 g'"
        using True nf(1) by (subst recruit_new_fighters.simps) simp
      moreover have "recruit_new_fighters a2 g = recruit_new_fighters ?a2 g'"
        using True2 nf(2) by (subst recruit_new_fighters.simps) simp
      ultimately show ?thesis by simp
    qed
  qed
qed


lemma observed_cycle_cases:
  assumes "observed_cycle r1 = observed_cycle r2"
  shows "(\<exists>e. r1 = Inl e \<and> r2 = Inl e)
     \<or> (\<exists>b1 b2 h. r1 = Inr (b1, h) \<and> r2 = Inr (b2, h) \<and> observable b1 = observable b2)"
  using assms by (auto simp: observed_cycle_def split: sum.splits)

lemma after_recruiting_same:
  assumes "observable b1 = observable b2"
  shows "observed_cycle (after_recruiting b1 h) = observed_cycle (after_recruiting b2 h)"
proof -
  have "observed_cycle (after_recruiting b1 h) = after_recruiting (observable b1) h"
    by (simp add: after_recruiting_observable)
  also have "\<dots> = after_recruiting (observable b2) h"
    by (simp add: assms)
  also have "\<dots> = observed_cycle (after_recruiting b2 h)"
    by (simp add: after_recruiting_observable)
  finally show ?thesis .
qed

lemma run_one_cycle_observable:
  assumes "observable a1 = observable a2"
  shows "observed_cycle (run_one_cycle a1 g) = observed_cycle (run_one_cycle a2 g)"
  using observed_cycle_cases [OF recruit_new_fighters_observable [OF assms, of g]]
proof (elim disjE exE conjE)
  fix e
  assume "recruit_new_fighters a1 g = Inl e" "recruit_new_fighters a2 g = Inl e"
  then show ?thesis
    by (simp add: run_one_cycle_split)
next
  fix b1 b2 h
  assume "recruit_new_fighters a1 g = Inr (b1, h)" "recruit_new_fighters a2 g = Inr (b2, h)"
    "observable b1 = observable b2"
  then show ?thesis
    using after_recruiting_same [of b1 b2 h] by (simp add: run_one_cycle_split)
qed

lemma run_cycles_observable:
  "observable a1 = observable a2 \<Longrightarrow>
   observed_cycle (run_cycles n a1 g) = observed_cycle (run_cycles n a2 g)"
proof (induction n arbitrary: a1 a2 g)
  case 0
  then show ?case by (simp add: observed_cycle_def)
next
  case (Suc n)
  from observed_cycle_cases [OF run_one_cycle_observable [OF Suc.prems, of g]]
  show ?case
  proof (elim disjE exE conjE)
    fix e
    assume "run_one_cycle a1 g = Inl e" "run_one_cycle a2 g = Inl e"
    then show ?thesis by simp
  next
    fix b1 b2 h
    assume "run_one_cycle a1 g = Inr (b1, h)" "run_one_cycle a2 g = Inr (b2, h)"
      "observable b1 = observable b2"
    then show ?thesis
      using Suc.IH [of b1 b2 h] by simp
  qed
qed

lemma year_end_same:
  assumes "observable b1 = observable b2"
  shows "year_end b1 y = year_end b2 y"
  using year_end_observable [of b1 y] year_end_observable [of b2 y] assms by simp

lemma run_years_observable:
  "observable a1 = observable a2 \<Longrightarrow>
   observed_run (run_years n y a1 g out) = observed_run (run_years n y a2 g out)"
proof (induction n arbitrary: y a1 a2 g out)
  case 0
  then show ?case by (simp add: observed_run_def)
next
  case (Suc n)
  have fpy: "fights_per_year a1 = fights_per_year a2"
    using observable_eqD(2) [OF Suc.prems] .
  from observed_cycle_cases [OF run_cycles_observable [OF Suc.prems, of "nat (fights_per_year a1)" g]]
  show ?case
  proof (elim disjE exE conjE)
    fix e
    assume "run_cycles (nat (fights_per_year a1)) a1 g = Inl e"
      "run_cycles (nat (fights_per_year a1)) a2 g = Inl e"
    then show ?thesis
      using fpy by (simp add: observed_run_def)
  next
    fix b1 b2 h
    assume r: "run_cycles (nat (fights_per_year a1)) a1 g = Inr (b1, h)"
      "run_cycles (nat (fights_per_year a1)) a2 g = Inr (b2, h)"
      and same: "observable b1 = observable b2"
    have "observed_run (run_years n (y + 1) b1 h (out @ year_end b1 y))
        = observed_run (run_years n (y + 1) b2 h (out @ year_end b1 y))"
      by (rule Suc.IH [OF same])
    then show ?thesis
      using r fpy year_end_same [OF same, of y] by simp
  qed
qed

text \<open>
  Claim C8. Take two runs of the simulation from arenas that show the same: the same
  configuration and the same population, names apart. However the two arena objects
  are identified, and whatever the operating system would have seeded the generators
  with, if both generators are seeded with the same integer then the two runs show the
  same at the end: both fail alike or both return, with the same population in the
  same order (the same hit points, levels, abilities and equipment, so the same rolls
  and shuffles), the same state of the generator (so the same draws consumed, damage
  rolls included) and the same year-end reports of living count and average level.
  The fighters' names, which hold the arena's address, are the one thing left out.
\<close>

theorem equally_seeded_runs_show_the_same:
  assumes "observable a1 = observable a2"
  shows "observed_run (run_sim a1 (set_random_seed mt entropy1 (Some seed)))
       = observed_run (run_sim a2 (set_random_seed mt entropy2 (Some seed)))"
proof -
  have g: "set_random_seed mt entropy1 (Some seed) = set_random_seed mt entropy2 (Some seed)"
    by (simp add: set_random_seed_def)
  have ny: "num_years a1 = num_years a2"
    using observable_eqD(1) [OF assms] .
  show ?thesis
    unfolding run_sim_def g ny by (rule run_years_observable [OF assms])
qed

text \<open>Two new arenas at different addresses, seeded with 7 on different machines.\<close>

theorem equally_seeded_runs_show_the_same_witness:
  "observable (Arena 1) = observable (Arena 2)
   \<and> observed_run (run_sim (Arena 1) (set_random_seed (\<lambda>s i. nat s + i) (\<lambda>_. 0) (Some 7)))
     = observed_run (run_sim (Arena 2) (set_random_seed (\<lambda>s i. nat s + i) (\<lambda>_. 1) (Some 7)))"
proof -
  have h: "observable (Arena 1) = observable (Arena 2)"
    by (simp add: observable_def Arena_def Party_def)
  from h equally_seeded_runs_show_the_same [OF h] show ?thesis
    by (intro conjI)
qed

end
